theory Spec2Isabelle
  imports Complex_Main
begin

section \<open>Common data\<close>

text \<open>
  The Python exceptions that the modelled functions can raise. A function that can raise
  returns \<open>py_error + 'a\<close>, with \<open>Inl\<close> for the exception.
\<close>

datatype py_error =
  IndexError | KeyError | ZeroDivisionError | ValueError | OverflowError | OSError

text \<open>
  numpy's float arrays are modelled over the real numbers. A float division by zero does not
  raise in numpy: it yields an infinity or a NaN. Where the source divides by a value that can
  be zero, the result is a \<open>quotient\<close>, so that the special value is a case of the model.
\<close>

datatype quotient = Finite real | NonFinite

definition fdiv :: "real \<Rightarrow> real \<Rightarrow> quotient" where
  "fdiv a b = (if b = 0 then NonFinite else Finite (a / b))"

text \<open>
  \<open>q < t\<close> on floats, for a numerator that is never negative: the comparison is false for
  \<open>+inf\<close> and for NaN.
\<close>

fun q_less :: "quotient \<Rightarrow> real \<Rightarrow> bool" where
  "q_less (Finite v) t = (v < t)"
| "q_less NonFinite t = False"

text \<open>\<open>q > t\<close>, read conservatively: a non-finite quotient counts as above every threshold.\<close>

fun q_above :: "quotient \<Rightarrow> real \<Rightarrow> bool" where
  "q_above (Finite v) t = (v > t)"
| "q_above NonFinite t = True"

section \<open>Suppressor: \<open>nms\<close> (mailcam_detector_onnx.py)\<close>

text \<open>A row of \<open>xyxy\<close>: \<open>(x1, y1, x2, y2)\<close>.\<close>

type_synonym box = "real \<times> real \<times> real \<times> real"

fun bx1 :: "box \<Rightarrow> real" where "bx1 (x1, y1, x2, y2) = x1"
fun by1 :: "box \<Rightarrow> real" where "by1 (x1, y1, x2, y2) = y1"
fun bx2 :: "box \<Rightarrow> real" where "bx2 (x1, y1, x2, y2) = x2"
fun by2 :: "box \<Rightarrow> real" where "by2 (x1, y1, x2, y2) = y2"

text \<open>
  \<open>inter = np.maximum(0, xx2 - xx1) * np.maximum(0, yy2 - yy1)\<close> for one pair of boxes.
\<close>

definition inter_area :: "box \<Rightarrow> box \<Rightarrow> real" where
  "inter_area a b =
     max 0 (min (bx2 a) (bx2 b) - max (bx1 a) (bx1 b)) *
     max 0 (min (by2 a) (by2 b) - max (by1 a) (by1 b))"

text \<open>\<open>(xyxy[i, 2] - xyxy[i, 0]) * (xyxy[i, 3] - xyxy[i, 1])\<close>\<close>

definition area :: "box \<Rightarrow> real" where
  "area a = (bx2 a - bx1 a) * (by2 a - by1 a)"

text \<open>\<open>iou = inter / (a_i + a_r - inter + 1e-6)\<close>\<close>

definition iou :: "box \<Rightarrow> box \<Rightarrow> quotient" where
  "iou a b = fdiv (inter_area a b) (area a + area b - inter_area a b + 1 / 1000000)"

text \<open>
  The IoU in the words of the specification, for comparison with the suppressor's quotient:
  the area of the intersection over the area of the union, without the \<open>1e-6\<close>.
\<close>

definition spec_iou :: "box \<Rightarrow> box \<Rightarrow> quotient" where
  "spec_iou a b = fdiv (inter_area a b) (area a + area b - inter_area a b)"

text \<open>
  \<open>np.argsort(-scores)\<close>: the indices of \<open>scores\<close> in order of descending score. The
  order numpy gives to equal scores is left to its sorting routine; the insertion sort of
  \<open>sort_key\<close> is one such order, and the theorems below use only that the result is a
  permutation of the indices in descending order of score.
\<close>

definition argsort_desc :: "real list \<Rightarrow> nat list" where
  "argsort_desc scores = sort_key (\<lambda>i. - (scores ! i)) [0..<length scores]"

text \<open>
  The \<open>while idx.size\<close> loop. \<open>xyxy[i, 0]\<close> and \<open>xyxy[rest, 0]\<close> raise IndexError for
  an index that \<open>xyxy\<close> does not have; with a single index left the loop breaks before it
  reads \<open>xyxy\<close>.
\<close>

fun nms_loop :: "box list \<Rightarrow> real \<Rightarrow> nat list \<Rightarrow> nat list \<Rightarrow> py_error + nat list" where
  "nms_loop xyxy thr [] keep = Inr keep"
| "nms_loop xyxy thr [i] keep = Inr (keep @ [i])"
| "nms_loop xyxy thr (i # rest) keep =
     (if i < length xyxy \<and> (\<forall>r \<in> set rest. r < length xyxy)
      then nms_loop xyxy thr
             (filter (\<lambda>r. q_less (iou (xyxy ! i) (xyxy ! r)) thr) rest) (keep @ [i])
      else Inl IndexError)"

definition nms :: "box list \<Rightarrow> real list \<Rightarrow> real \<Rightarrow> py_error + nat list" where
  "nms xyxy scores iou_threshold = nms_loop xyxy iou_threshold (argsort_desc scores) []"

section \<open>TensorDecoder: \<open>decode_yolo_output\<close> (mailcam_detector_onnx.py)\<close>

text \<open>
  A two-dimensional numpy array: its shape and its elements. Only the elements inside the
  shape are read. \<open>np_array\<close> builds one from its rows, as \<open>np.array\<close> does from a list
  of equally long lists.
\<close>

record ndarray2 =
  shape0 :: nat
  shape1 :: nat
  elem :: "nat \<Rightarrow> nat \<Rightarrow> real"

definition np_array :: "real list list \<Rightarrow> ndarray2" where
  "np_array rs =
     \<lparr>shape0 = length rs, shape1 = (case rs of [] \<Rightarrow> 0 | r # _ \<Rightarrow> length r),
      elem = (\<lambda>i j. rs ! i ! j)\<rparr>"

text \<open>\<open>o.T\<close>\<close>

definition transpose2 :: "ndarray2 \<Rightarrow> ndarray2" where
  "transpose2 o2 = \<lparr>shape0 = shape1 o2, shape1 = shape0 o2, elem = (\<lambda>i j. elem o2 j i)\<rparr>"

text \<open>
  The model's output tensor \<open>output[0]\<close>: two-dimensional, or three-dimensional with a
  leading batch axis (the list of its two-dimensional slices).
\<close>

datatype tensor = Tensor2 ndarray2 | Tensor3 "ndarray2 list"

text \<open>\<open>if o.ndim == 3: o = o[0]\<close>; indexing an empty batch axis raises IndexError.\<close>

definition drop_batch :: "tensor \<Rightarrow> py_error + ndarray2" where
  "drop_batch t =
     (case t of
        Tensor2 a \<Rightarrow> Inr a
      | Tensor3 [] \<Rightarrow> Inl IndexError
      | Tensor3 (a # _) \<Rightarrow> Inr a)"

text \<open>\<open>if o.shape[0] < o.shape[1]: o = o.T\<close>\<close>

definition orient :: "ndarray2 \<Rightarrow> ndarray2" where
  "orient o2 = (if shape0 o2 < shape1 o2 then transpose2 o2 else o2)"

definition sigmoid :: "real \<Rightarrow> real" where
  "sigmoid x = 1 / (1 + exp (- x))"

text \<open>
  \<open>ensure_probs\<close>. \<open>np.max\<close> and \<open>np.min\<close> raise ValueError on an array without
  elements; Python's \<open>or\<close> evaluates the tests on \<open>cls\<close> only when those on \<open>obj\<close> fail.
\<close>

definition ensure_probs ::
  "real list \<Rightarrow> real list list \<Rightarrow> py_error + (real list \<times> real list list)" where
  "ensure_probs obj cls =
     (if obj = [] then Inl ValueError
      else if Max (set obj) > 15 / 10 \<or> Min (set obj) < - (5 / 10)
      then Inr (map sigmoid obj, map (map sigmoid) cls)
      else if concat cls = [] then Inl ValueError
      else if Max (set (concat cls)) > 15 / 10 \<or> Min (set (concat cls)) < - (5 / 10)
      then Inr (map sigmoid obj, map (map sigmoid) cls)
      else Inr (obj, cls))"

text \<open>
  \<open>np.argmax\<close> of one row: the first index that holds the row's maximum. The rows it is
  applied to have an element, since the array has six columns or more.
\<close>

fun argmax_from :: "nat \<Rightarrow> real \<Rightarrow> nat \<Rightarrow> real list \<Rightarrow> nat" where
  "argmax_from bi bv i [] = bi"
| "argmax_from bi bv i (x # xs) =
     (if x > bv then argmax_from i x (Suc i) xs else argmax_from bi bv (Suc i) xs)"

definition argmax :: "real list \<Rightarrow> nat" where
  "argmax row = argmax_from 0 (hd row) 1 (tl row)"

text \<open>\<open>np.clip(v, lo, hi)\<close>\<close>

definition clip :: "real \<Rightarrow> real \<Rightarrow> real \<Rightarrow> real" where
  "clip v lo hi = min (max v lo) hi"

text \<open>
  One row of the box computation: from \<open>(x_center, y_center, w, h)\<close> in the letterboxed
  square to the corners in the original image, clipped to its bounds.
\<close>

definition unletterbox :: "real \<Rightarrow> real \<Rightarrow> real \<Rightarrow> real \<Rightarrow> real \<Rightarrow> box \<Rightarrow> box" where
  "unletterbox scale pad_x pad_y img_width img_height r =
     (case r of (x_center, y_center, w, h) \<Rightarrow>
        (clip ((x_center - w / 2 - pad_x) / scale) 0 img_width,
         clip ((y_center - h / 2 - pad_y) / scale) 0 img_height,
         clip ((x_center + w / 2 - pad_x) / scale) 0 img_width,
         clip ((y_center + h / 2 - pad_y) / scale) 0 img_height))"

text \<open>Boolean-mask indexing \<open>a[mask]\<close>.\<close>

definition masked :: "bool list \<Rightarrow> 'a list \<Rightarrow> 'a list" where
  "masked msk xs = map snd (filter fst (zip msk xs))"

text \<open>The slices \<open>o[:, :4]\<close>, \<open>o[:, 4]\<close> and \<open>o[:, 5:]\<close>.\<close>

definition cols_xywh :: "ndarray2 \<Rightarrow> box list" where
  "cols_xywh o2 = map (\<lambda>i. (elem o2 i 0, elem o2 i 1, elem o2 i 2, elem o2 i 3)) [0..<shape0 o2]"

definition col_obj :: "ndarray2 \<Rightarrow> real list" where
  "col_obj o2 = map (\<lambda>i. elem o2 i 4) [0..<shape0 o2]"

definition cols_cls :: "ndarray2 \<Rightarrow> real list list" where
  "cols_cls o2 = map (\<lambda>i. map (\<lambda>j. elem o2 i (5 + j)) [0..<shape1 o2 - 5]) [0..<shape0 o2]"

text \<open>
  \<open>decode_yolo_output\<close>. \<open>output\<close> is the list of arrays that the inference session
  returns. The scale is a quotient of Python integers, which raises ZeroDivisionError for an
  image without width or height. An \<open>imgsz\<close> of zero gives a zero scale, and the source then
  divides float arrays by it: the coordinates of that case are infinities or NaNs, outside
  this model, so statements about coordinates are made for \<open>imgsz \<noteq> 0\<close>.
\<close>

definition decode_yolo_output ::
  "tensor list \<Rightarrow> real \<Rightarrow> int \<Rightarrow> int \<Rightarrow> int \<Rightarrow> py_error + (box list \<times> nat list \<times> real list)" where
  "decode_yolo_output output conf_threshold img_width img_height imgsz =
     (case output of
        [] \<Rightarrow> Inl IndexError
      | t # _ \<Rightarrow>
     (case drop_batch t of
        Inl e \<Rightarrow> Inl e
      | Inr o1 \<Rightarrow>
     (let o2 = orient o1 in
      if shape1 o2 < 6 then Inr ([], [], [])
      else
        let xywh = cols_xywh o2 in
     (case ensure_probs (col_obj o2) (cols_cls o2) of
        Inl e \<Rightarrow> Inl e
      | Inr (obj, cls_probs) \<Rightarrow>
        let cls_ids = map argmax cls_probs;
            cls_max = map (\<lambda>(row, k). row ! k) (zip cls_probs cls_ids);
            conf = map (\<lambda>(a, b). a * b) (zip obj cls_max);
            msk = map (\<lambda>c. c \<ge> conf_threshold) conf
        in
          if \<not> (\<exists>m \<in> set msk. m) then Inr ([], [], [])
          else if img_width = 0 \<or> img_height = 0 then Inl ZeroDivisionError
          else
            let scale = min (real_of_int imgsz / real_of_int img_width)
                            (real_of_int imgsz / real_of_int img_height);
                pad_x = (real_of_int imgsz - real_of_int img_width * scale) / 2;
                pad_y = (real_of_int imgsz - real_of_int img_height * scale) / 2
            in Inr (map (unletterbox scale pad_x pad_y (real_of_int img_width)
                           (real_of_int img_height)) (masked msk xywh),
                    masked msk cls_ids,
                    masked msk conf)))))"

text \<open>
  The test of \<open>ensure_probs\<close> on the slices of an array: some objectness or class value
  lies outside \<open>[-0.5, 1.5]\<close>.
\<close>

definition logits_seen :: "ndarray2 \<Rightarrow> bool" where
  "logits_seen o2 =
     (\<exists>v \<in> set (col_obj o2) \<union> set (concat (cols_cls o2)). v > 15 / 10 \<or> v < - (5 / 10))"

section \<open>SingleStageDetector: \<open>run_detection\<close> (mailcam_detector_onnx.py)\<close>


text \<open>\<open>str(n)\<close> for a class id.\<close>

fun str_nat :: "nat \<Rightarrow> string" where
  "str_nat n =
     (if n < 10 then [char_of (48 + n)]
      else str_nat (n div 10) @ [char_of (48 + n mod 10)])"


text \<open>
  Python's \<open>round(x, nd)\<close>, read on the reals: to the nearest multiple of \<open>10\<^sup>-\<^sup>n\<^sup>d\<close>, a tie
  going to the even one.
\<close>

definition round_half_even :: "real \<Rightarrow> int" where
  "round_half_even x =
     (let f = \<lfloor>x\<rfloor>; d = x - real_of_int f
      in if d < 1 / 2 then f else if d > 1 / 2 then f + 1 else if even f then f else f + 1)"

definition py_round :: "real \<Rightarrow> nat \<Rightarrow> real" where
  "py_round x nd = real_of_int (round_half_even (x * 10 ^ nd)) / 10 ^ nd"




section \<open>ProposalCascade: \<open>two_stage_hits\<close> (twostage.py)\<close>

text \<open>\<open>int(x)\<close> on a float: truncation toward zero.\<close>

definition py_int :: "real \<Rightarrow> int" where
  "py_int x = (if x \<ge> 0 then \<lfloor>x\<rfloor> else \<lceil>x\<rceil>)"

text \<open>A proposal \<open>(x1, y1, x2, y2, lbl, conf)\<close> and the rectangle of a crop.\<close>

type_synonym proposal = "int \<times> int \<times> int \<times> int \<times> string \<times> real"
type_synonym rect = "int \<times> int \<times> int \<times> int"

text \<open>
  The fallback of \<open>two_stage_hits\<close> for a frame of width \<open>W\<close> and height \<open>H\<close>. The quotient
  \<open>H / 1.6\<close> is taken on the reals; on the frame sizes of a camera the float quotient
  truncates to the same integer.
\<close>

definition fallback_proposal :: "nat \<Rightarrow> nat \<Rightarrow> proposal" where
  "fallback_proposal W H =
     (let nh = py_int (real H / (16 / 10)); nw = py_int (real W / (16 / 10));
          y0 = (int H - nh) div 2; x0 = (int W - nw) div 2
      in (x0, y0, x0 + nw, y0 + nh, ''center'', 1))"

text \<open>\<open>if not proposals: proposals = [fallback]\<close>\<close>

definition with_fallback :: "nat \<Rightarrow> nat \<Rightarrow> proposal list \<Rightarrow> proposal list" where
  "with_fallback W H proposals = (if proposals = [] then [fallback_proposal W H] else proposals)"

text \<open>The slice \<open>xs[:n]\<close>: a negative \<open>n\<close> counts from the end.\<close>

definition py_take :: "int \<Rightarrow> 'a list \<Rightarrow> 'a list" where
  "py_take n xs = (if n \<ge> 0 then take (nat n) xs else take (length xs - nat (- n)) xs)"

text \<open>
  The number of indices of the slice \<open>a:b\<close> on an axis of length \<open>n\<close>, and \<open>crop.size\<close>
  for \<open>im[y1:y2, x1:x2]\<close> on a frame of three channels.
\<close>

definition slice_bound :: "nat \<Rightarrow> int \<Rightarrow> int" where
  "slice_bound n k = (if k < 0 then max 0 (k + int n) else min k (int n))"

definition slice_len :: "nat \<Rightarrow> int \<Rightarrow> int \<Rightarrow> int" where
  "slice_len n a b = max 0 (slice_bound n b - slice_bound n a)"

definition crop_size :: "nat \<Rightarrow> nat \<Rightarrow> rect \<Rightarrow> int" where
  "crop_size W H r = (case r of (x1, y1, x2, y2) \<Rightarrow> slice_len H y1 y2 * slice_len W x1 x2 * 3)"

text \<open>A box of a detector's result: class id, confidence and float corners.\<close>

record det_box =
  b_cls :: nat
  b_conf :: real
  b_xyxy :: box

text \<open>One brand hit: label, rounded confidence, integer corners in the frame, and \<open>via\<close>.\<close>

record brand_hit =
  bh_label :: string
  bh_conf :: real
  bh_xyxy :: rect
  bh_via :: string

definition ALLOW_DEFAULT :: "string set" where
  "ALLOW_DEFAULT = {''amazon'', ''dhl'', ''fedex'', ''ups'', ''usps''}"

text \<open>
  The body of \<open>for b in r2.boxes\<close>. The division by \<open>W * H\<close> raises ZeroDivisionError on a
  frame without pixels, and the \<open>except\<close> of the source drops the box.
\<close>

definition brand_box_hit ::
  "nat \<Rightarrow> nat \<Rightarrow> string set \<Rightarrow> real \<Rightarrow> (nat \<rightharpoonup> string) \<Rightarrow> int \<Rightarrow> int \<Rightarrow> string
     \<Rightarrow> det_box \<Rightarrow> brand_hit option" where
  "brand_box_hit W H allow area_min_frac brand_names x1 y1 via b =
     (if \<not> (0 \<le> b_conf b \<and> b_conf b \<le> 1) then None
      else
        let lab = (case brand_names (b_cls b) of Some n \<Rightarrow> n | None \<Rightarrow> ''cls-'' @ str_nat (b_cls b))
        in if lab \<notin> allow then None
           else
             let X1 = x1 + py_int (bx1 (b_xyxy b)); Y1 = y1 + py_int (by1 (b_xyxy b));
                 X2 = x1 + py_int (bx2 (b_xyxy b)); Y2 = y1 + py_int (by2 (b_xyxy b))
             in if W * H = 0 then None
                else
                  let area = max 0 (real_of_int ((X2 - X1) * (Y2 - Y1)) / real (W * H))
                  in if area < area_min_frac then None
                     else Some \<lparr>bh_label = lab, bh_conf = py_round (b_conf b) 3,
                                 bh_xyxy = (X1, Y1, X2, Y2), bh_via = via\<rparr>)"

text \<open>
  The loop over the proposals of stage 2. \<open>brand_predict\<close> is the brand model on the
  crop of the enhanced frame at a rectangle; it gives the boxes of its result, or \<open>None\<close>
  when the result has none. The function returns the hits and the rectangles of the crops
  on which the brand model was run, in the order of the loop.
\<close>

fun stage2 ::
  "nat \<Rightarrow> nat \<Rightarrow> string set \<Rightarrow> real \<Rightarrow> (nat \<rightharpoonup> string) \<Rightarrow> (rect \<Rightarrow> det_box list option)
     \<Rightarrow> proposal list \<Rightarrow> brand_hit list \<times> rect list" where
  "stage2 W H allow area_min_frac brand_names brand_predict [] = ([], [])"
| "stage2 W H allow area_min_frac brand_names brand_predict ((x1, y1, x2, y2, via, base_conf) # ps) =
     (let (hs, runs) = stage2 W H allow area_min_frac brand_names brand_predict ps
      in if crop_size W H (x1, y1, x2, y2) = 0 then (hs, runs)
         else case brand_predict (x1, y1, x2, y2) of
                None \<Rightarrow> (hs, (x1, y1, x2, y2) # runs)
              | Some boxes \<Rightarrow>
                  (List.map_filter
                     (brand_box_hit W H allow area_min_frac brand_names x1 y1 via) boxes @ hs,
                   (x1, y1, x2, y2) # runs))"

text \<open>
  The result of \<open>two_stage_hits\<close>: the hits and \<open>debug.proposal_count\<close>, and with them the
  rectangles on which the brand model was run. The annotated image is left out.
\<close>

record two_stage_result =
  hits :: "brand_hit list"
  proposal_count :: nat
  brand_runs :: "rect list"

text \<open>
  \<open>two_stage_hits\<close> from the result of stage 1 on: \<open>stage1\<close> is the proposal list that
  \<open>_collect_proposals\<close> returns for the frame. \<open>allow or ALLOW_DEFAULT\<close> takes the default
  for \<open>None\<close> and for an empty set.
\<close>

definition two_stage_hits ::
  "nat \<Rightarrow> nat \<Rightarrow> proposal list \<Rightarrow> string set option \<Rightarrow> real \<Rightarrow> int \<Rightarrow> (nat \<rightharpoonup> string)
     \<Rightarrow> (rect \<Rightarrow> det_box list option) \<Rightarrow> two_stage_result" where
  "two_stage_hits W H stage1 allow area_min_frac max_vehicle_crops brand_names brand_predict =
     (let allow' = (case allow of None \<Rightarrow> ALLOW_DEFAULT
                    | Some a \<Rightarrow> if a = {} then ALLOW_DEFAULT else a);
          proposals = with_fallback W H stage1;
          (hs, runs) = stage2 W H allow' area_min_frac brand_names brand_predict
                         (py_take max_vehicle_crops proposals)
      in \<lparr>hits = hs, proposal_count = length proposals, brand_runs = runs\<rparr>)"

section \<open>DailyCarrierTracker (mailcam_detector_onnx.py)\<close>

text \<open>
  A naive local \<open>datetime\<close>: the calendar date as its proleptic ordinal
  (\<open>date.toordinal()\<close>) and the time of day. Naive datetimes compare field by field.
\<close>

record datetime =
  ordinal :: int
  hour :: nat
  minute :: nat
  second :: nat
  microsecond :: nat

definition dt_less :: "datetime \<Rightarrow> datetime \<Rightarrow> bool" where
  "dt_less a b =
     (ordinal a < ordinal b \<or> (ordinal a = ordinal b \<and>
       (hour a < hour b \<or> (hour a = hour b \<and>
         (minute a < minute b \<or> (minute a = minute b \<and>
           (second a < second b \<or> (second a = second b \<and>
             microsecond a < microsecond b))))))))"

text \<open>\<open>now - timedelta(days=1)\<close>\<close>

definition minus_one_day :: "datetime \<Rightarrow> datetime" where
  "minus_one_day d = d\<lparr>ordinal := ordinal d - 1\<rparr>"

text \<open>\<open>reference.replace(hour=0, minute=0, second=0, microsecond=0)\<close>\<close>

definition at_midnight :: "datetime \<Rightarrow> datetime" where
  "at_midnight d = d\<lparr>hour := 0, minute := 0, second := 0, microsecond := 0\<rparr>"

text \<open>
  The tracker object. \<open>detections\<close> is the dict from carrier to timestamp or \<open>None\<close>:
  \<open>detections t c = None\<close> says that the dict has no key \<open>c\<close>, \<open>Some None\<close> that the
  key holds \<open>None\<close>.
\<close>

record tracker =
  carriers :: "string list"
  reset_hour :: int
  detections :: "string \<rightharpoonup> real option"
  current_day :: datetime

text \<open>\<open>_get_current_day\<close>; \<open>now\<close> is the reading of \<open>datetime.now()\<close>.\<close>

definition get_current_day :: "int \<Rightarrow> datetime \<Rightarrow> datetime" where
  "get_current_day rh now =
     (let reference = (if int (hour now) < rh then minus_one_day now else now)
      in at_midnight reference)"

text \<open>\<open>{carrier: None for carrier in carriers}\<close>\<close>

definition no_detections :: "string list \<Rightarrow> (string \<rightharpoonup> real option)" where
  "no_detections cs = (\<lambda>c. if c \<in> set cs then Some None else None)"

text \<open>\<open>__init__\<close>\<close>

definition tracker_init :: "string list \<Rightarrow> int \<Rightarrow> datetime \<Rightarrow> tracker" where
  "tracker_init cs rh now =
     \<lparr>carriers = cs, reset_hour = rh, detections = no_detections cs,
      current_day = get_current_day rh now\<rparr>"

definition check_and_reset :: "tracker \<Rightarrow> datetime \<Rightarrow> bool \<times> tracker" where
  "check_and_reset t now =
     (let cd = get_current_day (reset_hour t) now
      in if dt_less (current_day t) cd
         then (True, t\<lparr>detections := no_detections (carriers t), current_day := cd\<rparr>)
         else (False, t))"

text \<open>
  \<open>timestamp or time.time()\<close>: the argument when it is truthy (given and not zero),
  otherwise the reading \<open>clock\<close> of \<open>time.time()\<close>.
\<close>

definition truthy :: "real option \<Rightarrow> bool" where
  "truthy v = (case v of None \<Rightarrow> False | Some x \<Rightarrow> x \<noteq> 0)"

definition timestamp_or :: "real option \<Rightarrow> real \<Rightarrow> real" where
  "timestamp_or timestamp clock = (if truthy timestamp then the timestamp else clock)"

text \<open>
  \<open>datetime.fromtimestamp\<close> is a function of the platform and of the local time zone: it
  gives the local datetime of a timestamp, or raises (OverflowError, OSError or ValueError)
  for a timestamp outside the range it covers. The tracker's functions take it as the
  parameter \<open>fromtimestamp\<close>.

  \<open>mark_detected\<close> returns its result, or the exception it raises, and the tracker after
  the call. \<open>self.detections[carrier]\<close> raises KeyError for a key the dict does not have.
  The log line of a first detection formats \<open>datetime.fromtimestamp\<close> of the timestamp
  that has just been stored: when that raises, the call raises and the timestamp stays
  stored.
\<close>

definition mark_detected ::
  "(real \<Rightarrow> py_error + datetime) \<Rightarrow> tracker \<Rightarrow> string \<Rightarrow> real option \<Rightarrow> real
     \<Rightarrow> (py_error + bool) \<times> tracker" where
  "mark_detected fromtimestamp t carrier timestamp clock =
     (if carrier \<notin> set (carriers t) then (Inr False, t)
      else case detections t carrier of
             None \<Rightarrow> (Inl KeyError, t)
           | Some None \<Rightarrow>
               (let stored = timestamp_or timestamp clock;
                    t' = t\<lparr>detections := (detections t)(carrier \<mapsto> Some stored)\<rparr>
                in case fromtimestamp stored of
                     Inl e \<Rightarrow> (Inl e, t')
                   | Inr dt \<Rightarrow> (Inr True, t'))
           | Some (Some v) \<Rightarrow> (Inr False, t))"

text \<open>\<open>self.detections.get(carrier) is not None\<close>\<close>

definition is_detected :: "tracker \<Rightarrow> string \<Rightarrow> bool" where
  "is_detected t carrier =
     (case detections t carrier of None \<Rightarrow> False | Some None \<Rightarrow> False | Some (Some v) \<Rightarrow> True)"

text \<open>
  One entry of the summary: \<open>{"detected": True, "timestamp": ts, "time": ...}\<close> or
  \<open>{"detected": False}\<close>. The \<open>time\<close> string formats the datetime that
  \<open>datetime.fromtimestamp\<close> gives for the timestamp and is left out of the entry; the
  \<open>date\<close> string is represented by the ordinal of the day it formats.
\<close>

record summary_entry =
  detected :: bool
  timestamp :: "real option"

record summary =
  date :: int
  entries :: "string \<rightharpoonup> summary_entry"

text \<open>
  The loop \<open>for carrier in self.carriers\<close> of \<open>get_summary\<close>. For a truthy stored
  timestamp the entry is built with \<open>datetime.fromtimestamp\<close> of it, which can raise.
\<close>

fun summary_loop ::
  "(real \<Rightarrow> py_error + datetime) \<Rightarrow> (string \<rightharpoonup> real option) \<Rightarrow> string list
     \<Rightarrow> (string \<rightharpoonup> summary_entry) \<Rightarrow> py_error + (string \<rightharpoonup> summary_entry)" where
  "summary_loop fromtimestamp d [] acc = Inr acc"
| "summary_loop fromtimestamp d (c # cs) acc =
     (case d c of
        None \<Rightarrow> Inl KeyError
      | Some v \<Rightarrow>
          if truthy v
          then (case fromtimestamp (the v) of
                  Inl e \<Rightarrow> Inl e
                | Inr dt \<Rightarrow>
                    summary_loop fromtimestamp d cs
                      (acc(c \<mapsto> \<lparr>detected = True, timestamp = v\<rparr>)))
          else summary_loop fromtimestamp d cs
                 (acc(c \<mapsto> \<lparr>detected = False, timestamp = None\<rparr>)))"

definition get_summary :: "(real \<Rightarrow> py_error + datetime) \<Rightarrow> tracker \<Rightarrow> py_error + summary" where
  "get_summary fromtimestamp t =
     (case summary_loop fromtimestamp (detections t) (carriers t) Map.empty of
        Inl e \<Rightarrow> Inl e
      | Inr m \<Rightarrow> Inr \<lparr>date = ordinal (current_day t), entries = m\<rparr>)"

text \<open>
  The tracker states that the program can reach: the constructor, then any calls of
  \<open>mark_detected\<close>, returning or raising, and of \<open>check_and_reset\<close>. The clock reading
  \<open>time.time()\<close> is a time after the epoch, so it is not zero.
\<close>

inductive reachable :: "(real \<Rightarrow> py_error + datetime) \<Rightarrow> tracker \<Rightarrow> bool"
  for fromtimestamp :: "real \<Rightarrow> py_error + datetime" where
  r_init: "reachable fromtimestamp (tracker_init cs rh now)"
| r_mark: "reachable fromtimestamp t \<Longrightarrow> clock \<noteq> 0
            \<Longrightarrow> mark_detected fromtimestamp t c ts clock = (res, t')
            \<Longrightarrow> reachable fromtimestamp t'"
| r_reset: "reachable fromtimestamp t \<Longrightarrow> check_and_reset t now = (b, t')
            \<Longrightarrow> reachable fromtimestamp t'"

text \<open>
  \<open>check_and_reset\<close> called once per poll, at the clock readings \<open>nows\<close> in turn: the
  results of the calls and the tracker after the last one.
\<close>

fun check_each :: "tracker \<Rightarrow> datetime list \<Rightarrow> bool list \<times> tracker" where
  "check_each t [] = ([], t)"
| "check_each t (now # nows) =
     (let (b, t') = check_and_reset t now; (bs, t'') = check_each t' nows
      in (b # bs, t''))"

text \<open>
  The invariant of the reachable trackers: the dict has exactly the configured carriers as
  keys, and no recorded timestamp is zero.
\<close>

definition tracker_inv :: "tracker \<Rightarrow> bool" where
  "tracker_inv t =
     ((\<forall>c. c \<in> set (carriers t) \<longleftrightarrow> detections t c \<noteq> None) \<and>
      (\<forall>c v. detections t c = Some (Some v) \<longrightarrow> v \<noteq> 0))"

text \<open>Every recorded timestamp is one that \<open>datetime.fromtimestamp\<close> accepts.\<close>

definition stored_accepted :: "(real \<Rightarrow> py_error + datetime) \<Rightarrow> tracker \<Rightarrow> bool" where
  "stored_accepted fromtimestamp t =
     (\<forall>c v. detections t c = Some (Some v) \<longrightarrow> (\<exists>dt. fromtimestamp v = Inr dt))"


section \<open>StateReconciler (mailcam_sidecar.py)\<close>

text \<open>
  \<open>str.lower\<close> on the ASCII letters; carrier names are ASCII.
\<close>

definition lower_char :: "char \<Rightarrow> char" where
  "lower_char c =
     (let n = (of_char c :: nat) in if 65 \<le> n \<and> n \<le> 90 then char_of (n + 32) else c)"

definition lower :: "string \<Rightarrow> string" where
  "lower s = map lower_char s"

text \<open>\<open>set(map(str.lower, xs))\<close>\<close>

definition lower_set :: "string list \<Rightarrow> string set" where
  "lower_set xs = set (map lower xs)"

text \<open>
  The decoded JSON object. A field is \<open>None\<close> when the object has no such key. The value
  under \<open>ts\<close> matters only through being \<open>null\<close> or not.
\<close>

datatype jts = JNull | JVal int

record payload =
  p_entered :: "string list option"
  p_current :: "string list option"
  p_today :: "string list option"
  p_services :: "string list option"
  p_ts :: "jts option"

text \<open>\<open>payload.get(key, [])\<close>\<close>

definition get_list :: "string list option \<Rightarrow> string list" where
  "get_list f = (case f of None \<Rightarrow> [] | Some xs \<Rightarrow> xs)"

text \<open>
  \<open>_coerce_services\<close>; \<open>now\<close> is the reading of \<open>_now_ts()\<close>. The last component is
  \<open>JNull\<close> for Python's \<open>None\<close>.
\<close>

definition coerce_services ::
  "int \<Rightarrow> payload \<Rightarrow> string set \<times> string set \<times> string set \<times> jts" where
  "coerce_services now p =
     (if p_entered p \<noteq> None \<or> p_current p \<noteq> None \<or> p_today p \<noteq> None
      then (lower_set (get_list (p_entered p)),
            lower_set (get_list (p_current p)),
            lower_set (get_list (p_today p)),
            (case p_ts p of None \<Rightarrow> JVal now | Some v \<Rightarrow> v))
      else if p_services p \<noteq> None
      then (lower_set (get_list (p_services p)), {}, {}, JVal now)
      else ({}, {}, {}, JNull))"

text \<open>
  The module state: the globals \<open>CURR\<close>, \<open>TODAY\<close> and \<open>LAST_RESET_DAY\<close>, and the content
  of the state file (\<open>ts\<close>, \<open>current\<close>, \<open>today\<close>; the file holds the two sets as sorted
  arrays), \<open>None\<close> before the first write.
\<close>

record sidecar =
  CURR :: "string set"
  TODAY :: "string set"
  LAST_RESET_DAY :: "nat option"
  STATE_FILE :: "(int \<times> string set \<times> string set) option"

text \<open>
  The readings of the clock during one call: \<open>_local_day()\<close>, \<open>datetime.now().hour\<close> and
  \<open>_now_ts()\<close>.
\<close>

record clock =
  local_day :: nat
  local_hour :: int
  now_ts :: int

text \<open>\<open>_ensure_reset_if_needed\<close>, with the configured \<open>RESET_H\<close>.\<close>

definition ensure_reset_if_needed :: "int \<Rightarrow> clock \<Rightarrow> sidecar \<Rightarrow> sidecar" where
  "ensure_reset_if_needed RESET_H ck st =
     (if LAST_RESET_DAY st \<noteq> Some (local_day ck) \<and> local_hour ck \<ge> RESET_H
      then st\<lparr>TODAY := {}, LAST_RESET_DAY := Some (local_day ck)\<rparr>
      else st)"

text \<open>\<open>_write_state\<close>\<close>

definition write_state :: "clock \<Rightarrow> sidecar \<Rightarrow> sidecar" where
  "write_state ck st = st\<lparr>STATE_FILE := Some (now_ts ck, CURR st, TODAY st)\<rparr>"

text \<open>
  \<open>on_message\<close>. The message is \<open>None\<close> when \<open>json.loads\<close> fails. The three \<open>if\<close>s of
  the source test the sets for being non-empty.
\<close>

definition on_message :: "int \<Rightarrow> clock \<Rightarrow> sidecar \<Rightarrow> payload option \<Rightarrow> sidecar" where
  "on_message RESET_H ck st msg =
     (case msg of
        None \<Rightarrow> st
      | Some p \<Rightarrow>
          (case coerce_services (now_ts ck) p of
             (entered, current, today, ts) \<Rightarrow>
               if ts = JNull then st
               else
                 let s0 = ensure_reset_if_needed RESET_H ck st;
                     s1 = (if entered \<noteq> {}
                           then s0\<lparr>CURR := CURR s0 \<union> entered, TODAY := TODAY s0 \<union> entered\<rparr>
                           else s0);
                     s2 = (if current \<noteq> {} then s1\<lparr>CURR := current\<rparr> else s1);
                     s3 = (if today \<noteq> {} then s2\<lparr>TODAY := today\<rparr> else s2);
                     changed = (entered \<noteq> {} \<or> current \<noteq> {} \<or> today \<noteq> {})
                 in if changed then write_state ck s3 else s3))"

text \<open>The handler run on a sequence of messages, each with the clock readings of its call.\<close>

fun on_messages :: "int \<Rightarrow> sidecar \<Rightarrow> (clock \<times> payload option) list \<Rightarrow> sidecar" where
  "on_messages RESET_H st [] = st"
| "on_messages RESET_H st ((ck, m) # ms) = on_messages RESET_H (on_message RESET_H ck st m) ms"

text \<open>
  The two shapes of \<open>_coerce_services\<close>: the event schema has one of the keys
  \<open>entered\<close>, \<open>current\<close>, \<open>today\<close>; the simple schema has none of them and has \<open>services\<close>.
\<close>

definition event_shaped :: "payload \<Rightarrow> bool" where
  "event_shaped p = (p_entered p \<noteq> None \<or> p_current p \<noteq> None \<or> p_today p \<noteq> None)"

definition services_shaped :: "payload \<Rightarrow> bool" where
  "services_shaped p = (\<not> event_shaped p \<and> p_services p \<noteq> None)"

text \<open>A reset is due at a call when \<open>_ensure_reset_if_needed\<close> takes its branch.\<close>

definition reset_due :: "int \<Rightarrow> clock \<Rightarrow> sidecar \<Rightarrow> bool" where
  "reset_due RESET_H ck st =
     (LAST_RESET_DAY st \<noteq> Some (local_day ck) \<and> local_hour ck \<ge> RESET_H)"

section \<open>Example inputs\<close>

text \<open>
  A tracker for the carriers \<open>ups\<close> and \<open>usps\<close> with reset hour 3, constructed at 02:59 of
  a day, and two later clock readings of the same calendar day.
\<close>

definition ex_night :: datetime where
  "ex_night = \<lparr>ordinal = 739900, hour = 2, minute = 59, second = 0, microsecond = 0\<rparr>"

definition ex_morning :: datetime where
  "ex_morning = \<lparr>ordinal = 739900, hour = 4, minute = 1, second = 0, microsecond = 0\<rparr>"

definition ex_noon :: datetime where
  "ex_noon = \<lparr>ordinal = 739900, hour = 12, minute = 0, second = 0, microsecond = 0\<rparr>"

definition ex_tracker :: tracker where
  "ex_tracker = tracker_init [''ups'', ''usps''] 3 ex_night"

text \<open>
  \<open>datetime.fromtimestamp\<close> for the time zone UTC on a platform that covers the years 1 to
  9999: the ordinal of 1 January 1970 is 719163, and a timestamp outside the years raises
  ValueError. The fraction of a second is rounded to microseconds, a tie going to the even
  one, and a rounded fraction of a full second is carried.
\<close>

definition ex_fromtimestamp :: "real \<Rightarrow> py_error + datetime" where
  "ex_fromtimestamp ts =
     (let us0 = round_half_even ((ts - real_of_int \<lfloor>ts\<rfloor>) * 1000000);
          secs = (if us0 \<ge> 1000000 then \<lfloor>ts\<rfloor> + 1 else \<lfloor>ts\<rfloor>);
          us = (if us0 \<ge> 1000000 then us0 - 1000000 else us0)
      in if secs < - 62135596800 \<or> 253402300800 \<le> secs then Inl ValueError
         else Inr \<lparr>ordinal = 719163 + secs div 86400,
                   hour = nat ((secs mod 86400) div 3600),
                   minute = nat ((secs mod 3600) div 60),
                   second = nat (secs mod 60),
                   microsecond = nat us\<rparr>)"

text \<open>
  The tracker constructed at 04:01 of the same day, that tracker after a first detection of
  \<open>ups\<close> at 22:00 of the day, and after one with the timestamp \<open>10\<^sup>1\<^sup>8\<close>.
\<close>

definition ex_tracker_day :: tracker where
  "ex_tracker_day = tracker_init [''ups'', ''usps''] 3 ex_morning"

definition ex_marked :: tracker where
  "ex_marked =
     ex_tracker_day\<lparr>detections := (detections ex_tracker_day)(''ups'' \<mapsto> Some 1791756000)\<rparr>"

definition ex_marked_far :: tracker where
  "ex_marked_far =
     ex_tracker_day\<lparr>detections :=
       (detections ex_tracker_day)(''ups'' \<mapsto> Some 1000000000000000000)\<rparr>"

text \<open>
  A reconciler state that last reset on day 100, a clock reading of that day and one of the
  next day after the reset hour, and four messages.
\<close>

definition ex_sidecar :: sidecar where
  "ex_sidecar = \<lparr>CURR = {''ups''}, TODAY = {''ups''}, LAST_RESET_DAY = Some 100, STATE_FILE = None\<rparr>"

definition ex_clock_same_day :: clock where
  "ex_clock_same_day = \<lparr>local_day = 100, local_hour = 10, now_ts = 1700000000\<rparr>"

definition ex_clock_next_day :: clock where
  "ex_clock_next_day = \<lparr>local_day = 101, local_hour = 4, now_ts = 1700065000\<rparr>"

definition ex_event_empty_current :: payload where
  "ex_event_empty_current =
     \<lparr>p_entered = None, p_current = Some [], p_today = None, p_services = None, p_ts = None\<rparr>"

definition ex_event_entered_current :: payload where
  "ex_event_entered_current =
     \<lparr>p_entered = Some [''FedEx''], p_current = Some [''DHL''], p_today = None,
      p_services = None, p_ts = None\<rparr>"

definition ex_event_current :: payload where
  "ex_event_current =
     \<lparr>p_entered = None, p_current = Some [''DHL''], p_today = None,
      p_services = None, p_ts = None\<rparr>"

definition ex_services :: payload where
  "ex_services =
     \<lparr>p_entered = None, p_current = None, p_today = None,
      p_services = Some [''FedEx''], p_ts = None\<rparr>"

text \<open>
  A brand model with two class names that finds one box on every crop.
\<close>

definition ex_brand_names :: "nat \<rightharpoonup> string" where
  "ex_brand_names = [0 \<mapsto> ''fedex'', 1 \<mapsto> ''ups'']"

definition ex_brand_predict :: "rect \<Rightarrow> det_box list option" where
  "ex_brand_predict r = Some [\<lparr>b_cls = 0, b_conf = 9 / 10, b_xyxy = (10, 10, 110, 60)\<rparr>]"

text \<open>
  Output arrays: two with fewer than six columns after orientation, one whose scores are
  probabilities, one whose scores lie between 1 and 1.5, and one whose scores are logits.
\<close>

definition ex_logits :: ndarray2 where
  "ex_logits = np_array
     [[320, 320, 64, 64, 3, 2], [320, 320, 64, 64, 3, 2], [320, 320, 64, 64, 3, 2],
      [320, 320, 64, 64, 3, 2], [320, 320, 64, 64, 3, 2], [320, 320, 64, 64, 3, 2]]"

definition ex_small :: ndarray2 where
  "ex_small = np_array [[1, 2, 3], [4, 5, 6], [7, 8, 9], [10, 11, 12]]"

definition ex_wide :: ndarray2 where
  "ex_wide = np_array [[1, 2, 3, 4, 5, 6, 7], [1, 2, 3, 4, 5, 6, 7]]"

definition ex_probs_over_one :: ndarray2 where
  "ex_probs_over_one = np_array
     [[10, 10, 4, 4, 12 / 10, 12 / 10], [10, 10, 4, 4, 2 / 10, 2 / 10],
      [10, 10, 4, 4, 2 / 10, 2 / 10], [10, 10, 4, 4, 2 / 10, 2 / 10],
      [10, 10, 4, 4, 2 / 10, 2 / 10], [10, 10, 4, 4, 2 / 10, 2 / 10]]"

definition ex_probs :: ndarray2 where
  "ex_probs = np_array
     [[10, 10, 4, 4, 9 / 10, 8 / 10], [10, 10, 4, 4, 2 / 10, 2 / 10],
      [10, 10, 4, 4, 2 / 10, 2 / 10], [10, 10, 4, 4, 2 / 10, 2 / 10],
      [10, 10, 4, 4, 2 / 10, 2 / 10], [10, 10, 4, 4, 2 / 10, 2 / 10]]"



section \<open>Properties of the Suppressor\<close>

lemma inter_commute: "inter_area a b = inter_area b a"
  by (simp add: inter_area_def min.commute max.commute)

lemma iou_commute: "iou a b = iou b a"
  by (simp add: iou_def inter_commute add.commute)

lemma q_less_not_above: "q_less q t \<Longrightarrow> \<not> q_above q t"
  by (cases q) auto

lemma nms_loop_spec:
  assumes "\<forall>r \<in> set idx. r < length xyxy"
  shows "\<exists>k. nms_loop xyxy thr idx keep = Inr (keep @ k) \<and> set k \<subseteq> set idx \<and>
             (idx \<noteq> [] \<longrightarrow> k \<noteq> [] \<and> hd k = hd idx) \<and>
             (distinct idx \<longrightarrow> distinct k) \<and>
             sorted_wrt (\<lambda>i j. q_less (iou (xyxy ! i) (xyxy ! j)) thr) k"
  using assms
proof (induction xyxy thr idx keep rule: nms_loop.induct)
  case (1 xyxy thr keep)
  then show ?case by simp
next
  case (2 xyxy thr i keep)
  then show ?case by simp
next
  case (3 xyxy thr i v va keep)
  let ?rest = "v # va"
  let ?P = "\<lambda>r. q_less (iou (xyxy ! i) (xyxy ! r)) thr"
  let ?rest' = "filter ?P ?rest"
  from 3(2) have inr: "i < length xyxy \<and> (\<forall>r \<in> set ?rest. r < length xyxy)" by simp
  have "\<forall>r \<in> set ?rest'. r < length xyxy" using inr by auto
  from 3(1)[OF inr this] obtain k where
    k: "nms_loop xyxy thr ?rest' (keep @ [i]) = Inr ((keep @ [i]) @ k)"
       "set k \<subseteq> set ?rest'" "distinct ?rest' \<longrightarrow> distinct k"
       "sorted_wrt (\<lambda>i j. q_less (iou (xyxy ! i) (xyxy ! j)) thr) k"
    by blast
  have kP: "\<forall>y \<in> set k. y \<in> set ?rest \<and> ?P y"
    using k(2) unfolding set_filter by blast
  have eq: "nms_loop xyxy thr (i # ?rest) keep = Inr (keep @ (i # k))"
    using inr k(1) by simp
  have sub: "set (i # k) \<subseteq> set (i # ?rest)" using kP by auto
  have dist: "distinct (i # ?rest) \<longrightarrow> distinct (i # k)"
    using kP k(3) distinct_filter[of ?rest ?P] by auto
  have srt: "sorted_wrt (\<lambda>i j. q_less (iou (xyxy ! i) (xyxy ! j)) thr) (i # k)"
    using kP k(4) by simp
  show ?case using eq sub dist srt by (intro exI[of _ "i # k"]) simp
qed

lemma argsort_desc_set: "set (argsort_desc scores) = {0..<length scores}"
  by (simp add: argsort_desc_def)

lemma argsort_desc_distinct: "distinct (argsort_desc scores)"
  by (simp add: argsort_desc_def)

lemma argsort_desc_sorted: "sorted (map (\<lambda>i. - (scores ! i)) (argsort_desc scores))"
  by (simp add: argsort_desc_def)

lemma argsort_desc_hd_max:
  assumes "scores \<noteq> []" "j < length scores"
  shows "scores ! j \<le> scores ! hd (argsort_desc scores)"
proof -
  let ?a = "argsort_desc scores"
  have ne: "?a \<noteq> []" using assms(1) argsort_desc_set[of scores] by (metis atLeastLessThan_empty_iff2 length_greater_0_conv set_empty)
  then obtain h t where a: "?a = h # t" by (cases ?a) auto
  have "j \<in> set ?a" using assms(2) by (simp add: argsort_desc_set)
  then have "- (scores ! h) \<le> - (scores ! j)"
    using argsort_desc_sorted[of scores] unfolding a by auto
  then show ?thesis by (simp add: a)
qed

lemma sorted_wrt_sym_pairs:
  assumes "sorted_wrt P xs" "\<And>a b. P a b \<Longrightarrow> P b a"
    "x \<in> set xs" "y \<in> set xs" "x \<noteq> y"
  shows "P x y"
  using assms(1,3,4,5)
proof (induction xs)
  case Nil
  then show ?case by simp
next
  case (Cons a xs)
  then show ?case using assms(2) by auto
qed

lemma kept_pair_bound:
  assumes "q_less (iou a b) thr"
  shows "let I = inter_area a b; U = area a + area b - I in
           U + 1 / 1000000 \<noteq> 0 \<and> I / (U + 1 / 1000000) < thr \<and>
           (0 < U \<longrightarrow> q_less (spec_iou a b) (thr * (1 + 1 / (1000000 * U))))"
proof -
  define I where "I = inter_area a b"
  define U where "U = area a + area b - I"
  have den: "U + 1 / 1000000 \<noteq> 0" and lt: "I / (U + 1 / 1000000) < thr"
    using assms unfolding iou_def fdiv_def U_def I_def
    by (auto split: if_splits)
  have geo: "q_less (spec_iou a b) (thr * (1 + 1 / (1000000 * U)))" if pos: "0 < U"
  proof -
    have dpos: "0 < U + 1 / 1000000" using pos by simp
    from lt have "I < thr * (U + 1 / 1000000)"
      using dpos by (simp add: pos_divide_less_eq)
    then have "I / U < thr * (U + 1 / 1000000) / U"
      using pos by (simp add: divide_strict_right_mono)
    moreover have "thr * (U + 1 / 1000000) / U = thr * (1 + 1 / (1000000 * U))"
      using pos by (simp add: field_simps)
    ultimately have "I / U < thr * (1 + 1 / (1000000 * U))" by simp
    then show ?thesis using pos by (simp add: spec_iou_def fdiv_def U_def I_def)
  qed
  show ?thesis unfolding Let_def using den lt geo unfolding U_def I_def by blast
qed

text \<open>
  Claim C1, as amended. For boxes \<open>xyxy\<close> with their scores \<open>scores\<close> and any threshold,
  \<open>nms\<close> returns a list of distinct candidate indices such that for any two kept boxes the
  quotient that the suppressor computes, the intersection area over the union area plus
  \<open>1e-6\<close>, is below the threshold; so for two kept boxes with a union of area \<open>U > 0\<close> the IoU
  is below the threshold times \<open>1 + 1e-6 / U\<close>. A candidate of highest score is kept, and a
  candidate whose score is strictly above all others is kept; without candidates the kept
  list is empty.
\<close>

theorem nms_kept_set:
  assumes "length xyxy = length scores"
  shows "\<exists>keep. nms xyxy scores thr = Inr keep \<and>
           distinct keep \<and> set keep \<subseteq> {0..<length scores} \<and>
           (\<forall>i \<in> set keep. \<forall>j \<in> set keep. i \<noteq> j \<longrightarrow>
               (let I = inter_area (xyxy ! i) (xyxy ! j);
                    U = area (xyxy ! i) + area (xyxy ! j) - I
                in U + 1 / 1000000 \<noteq> 0 \<and> I / (U + 1 / 1000000) < thr \<and>
                   (0 < U \<longrightarrow>
                      q_less (spec_iou (xyxy ! i) (xyxy ! j)) (thr * (1 + 1 / (1000000 * U)))))) \<and>
           (scores \<noteq> [] \<longrightarrow>
               (\<exists>i \<in> set keep. \<forall>j < length scores. scores ! j \<le> scores ! i)) \<and>
           (\<forall>i < length scores.
               (\<forall>j < length scores. j \<noteq> i \<longrightarrow> scores ! j < scores ! i) \<longrightarrow> i \<in> set keep) \<and>
           (scores = [] \<longrightarrow> keep = [])"
proof -
  let ?idx = "argsort_desc scores"
  let ?P = "\<lambda>i j. q_less (iou (xyxy ! i) (xyxy ! j)) thr"
  have rng: "\<forall>r \<in> set ?idx. r < length xyxy"
    using assms by (simp add: argsort_desc_set)
  from nms_loop_spec[OF rng, of thr "[]"] obtain k where
    k: "nms_loop xyxy thr ?idx [] = Inr k" "set k \<subseteq> set ?idx"
       "?idx \<noteq> [] \<longrightarrow> k \<noteq> [] \<and> hd k = hd ?idx"
       "distinct ?idx \<longrightarrow> distinct k" "sorted_wrt ?P k"
    by auto
  have res: "nms xyxy scores thr = Inr k" using k(1) by (simp add: nms_def)
  have dist: "distinct k" using k(4) argsort_desc_distinct by blast
  have sub: "set k \<subseteq> {0..<length scores}" using k(2) by (simp add: argsort_desc_set)
  have sym: "\<And>a b. ?P a b \<Longrightarrow> ?P b a" by (simp add: iou_commute)
  have pair: "\<forall>i \<in> set k. \<forall>j \<in> set k. i \<noteq> j \<longrightarrow>
               (let I = inter_area (xyxy ! i) (xyxy ! j);
                    U = area (xyxy ! i) + area (xyxy ! j) - I
                in U + 1 / 1000000 \<noteq> 0 \<and> I / (U + 1 / 1000000) < thr \<and>
                   (0 < U \<longrightarrow>
                      q_less (spec_iou (xyxy ! i) (xyxy ! j)) (thr * (1 + 1 / (1000000 * U)))))"
  proof (intro ballI impI)
    fix i j assume "i \<in> set k" "j \<in> set k" "i \<noteq> j"
    then have "?P i j" using sorted_wrt_sym_pairs[of ?P k i j, OF k(5) sym] by blast
    then show "let I = inter_area (xyxy ! i) (xyxy ! j);
                    U = area (xyxy ! i) + area (xyxy ! j) - I
                in U + 1 / 1000000 \<noteq> 0 \<and> I / (U + 1 / 1000000) < thr \<and>
                   (0 < U \<longrightarrow>
                      q_less (spec_iou (xyxy ! i) (xyxy ! j)) (thr * (1 + 1 / (1000000 * U))))"
      by (rule kept_pair_bound)
  qed
  have idx_ne: "scores \<noteq> [] \<Longrightarrow> ?idx \<noteq> []"
    using argsort_desc_set[of scores] by (metis atLeastLessThan_empty_iff2 length_greater_0_conv set_empty)
  have top: "scores \<noteq> [] \<longrightarrow> (\<exists>i \<in> set k. \<forall>j < length scores. scores ! j \<le> scores ! i)"
  proof
    assume ne: "scores \<noteq> []"
    then have "k \<noteq> []" "hd k = hd ?idx" using k(3) idx_ne by auto
    then have "hd ?idx \<in> set k" by (metis hd_in_set)
    moreover have "\<forall>j < length scores. scores ! j \<le> scores ! hd ?idx"
      using argsort_desc_hd_max[OF ne] by blast
    ultimately show "\<exists>i \<in> set k. \<forall>j < length scores. scores ! j \<le> scores ! i" by blast
  qed
  have strict: "\<forall>i < length scores.
      (\<forall>j < length scores. j \<noteq> i \<longrightarrow> scores ! j < scores ! i) \<longrightarrow> i \<in> set k"
  proof (intro allI impI)
    fix i assume i: "i < length scores"
      and mx: "\<forall>j < length scores. j \<noteq> i \<longrightarrow> scores ! j < scores ! i"
    then have "scores \<noteq> []" by auto
    with top obtain m where m: "m \<in> set k" "\<forall>j < length scores. scores ! j \<le> scores ! m" by blast
    have "m < length scores" using m(1) sub by auto
    then have "m = i" using mx m(2) i by (metis not_less)
    then show "i \<in> set k" using m(1) by simp
  qed
  have emp: "scores = [] \<longrightarrow> k = []" using sub by auto
  show ?thesis using res dist sub pair top strict emp by blast
qed

lemma nms_ex_overlap:
  "nms [(0, 0, 10, 10), (5, 0, 15, 10), (6, 0, 16, 10)] [9 / 10, 8 / 10, 5 / 10] (45 / 100)
     = Inr [0, 1]"
  by (simp add: nms_def argsort_desc_def iou_def fdiv_def area_def inter_area_def)

theorem nms_kept_set_witness:
  "length [(0, 0, 10, 10), (5, 0, 15, 10), (6, 0, 16, 10) :: box]
     = length [9 / 10, 8 / 10, 5 / 10 :: real] \<and>
   nms [(0, 0, 10, 10), (5, 0, 15, 10), (6, 0, 16, 10)] [9 / 10, 8 / 10, 5 / 10] (45 / 100)
     = Inr [0, 1] \<and>
   inter_area (0, 0, 10, 10) (5, 0, 15, 10) = 50 \<and>
   area (0, 0, 10, 10) + area (5, 0, 15, 10) - inter_area (0, 0, 10, 10) (5, 0, 15, 10) = 150 \<and>
   q_less (spec_iou (0, 0, 10, 10) (5, 0, 15, 10)) (45 / 100 * (1 + 1 / (1000000 * 150)))"
proof -
  let ?xyxy = "[(0, 0, 10, 10), (5, 0, 15, 10), (6, 0, 16, 10) :: box]"
  let ?scores = "[9 / 10, 8 / 10, 5 / 10 :: real]"
  have len: "length ?xyxy = length ?scores" by simp
  from nms_kept_set[OF len, of "45 / 100"] obtain keep where
    k: "nms ?xyxy ?scores (45 / 100) = Inr keep"
       "\<forall>i \<in> set keep. \<forall>j \<in> set keep. i \<noteq> j \<longrightarrow>
           (let I = inter_area (?xyxy ! i) (?xyxy ! j);
                U = area (?xyxy ! i) + area (?xyxy ! j) - I
            in U + 1 / 1000000 \<noteq> 0 \<and> I / (U + 1 / 1000000) < 45 / 100 \<and>
               (0 < U \<longrightarrow>
                  q_less (spec_iou (?xyxy ! i) (?xyxy ! j)) (45 / 100 * (1 + 1 / (1000000 * U)))))"
    by blast
  have keep: "keep = [0, 1]" using k(1) nms_ex_overlap by simp
  have i: "inter_area (0, 0, 10, 10) (5, 0, 15, 10) = 50"
    by (simp add: inter_area_def)
  have u: "area (0, 0, 10, 10) + area (5, 0, 15, 10) - inter_area (0, 0, 10, 10) (5, 0, 15, 10)
             = 150"
    by (simp add: inter_area_def area_def)
  have "let I = inter_area (?xyxy ! 0) (?xyxy ! 1);
            U = area (?xyxy ! 0) + area (?xyxy ! 1) - I
        in U + 1 / 1000000 \<noteq> 0 \<and> I / (U + 1 / 1000000) < 45 / 100 \<and>
           (0 < U \<longrightarrow>
              q_less (spec_iou (?xyxy ! 0) (?xyxy ! 1)) (45 / 100 * (1 + 1 / (1000000 * U))))"
    using k(2) unfolding keep by simp
  then have "q_less (spec_iou (0, 0, 10, 10) (5, 0, 15, 10)) (45 / 100 * (1 + 1 / (1000000 * 150)))"
    unfolding Let_def using u by simp
  then show ?thesis using nms_ex_overlap i u by simp
qed

text \<open>
  The claim C1 as it was stated fails for the IoU without the \<open>1e-6\<close>: two identical boxes
  of side \<open>0.0009\<close> have the IoU 1 and the quotient \<open>0.4475\<close>, and both are kept at the
  threshold \<open>0.45\<close>; two unit squares shifted by \<open>0.3793102\<close> have an IoU above \<open>0.45\<close>
  and a quotient below it, and both are kept.
\<close>

theorem nms_kept_set_counterexample:
  "nms [(0, 0, 9 / 10000, 9 / 10000), (0, 0, 9 / 10000, 9 / 10000)] [9 / 10, 8 / 10] (45 / 100)
     = Inr [0, 1] \<and>
   spec_iou (0, 0, 9 / 10000, 9 / 10000) (0, 0, 9 / 10000, 9 / 10000) = Finite 1 \<and>
   q_above (spec_iou (0, 0, 9 / 10000, 9 / 10000) (0, 0, 9 / 10000, 9 / 10000)) (45 / 100) \<and>
   nms [(0, 0, 1, 1), (0, 3793102 / 10000000, 1, 13793102 / 10000000)] [9 / 10, 8 / 10] (45 / 100)
     = Inr [0, 1] \<and>
   q_above (spec_iou (0, 0, 1, 1) (0, 3793102 / 10000000, 1, 13793102 / 10000000)) (45 / 100)"
  by (simp add: nms_def argsort_desc_def iou_def spec_iou_def fdiv_def area_def inter_area_def)

section \<open>Properties of the DailyCarrierTracker\<close>

lemma dt_less_irrefl: "\<not> dt_less d d"
  by (simp add: dt_less_def)

lemma tracker_inv_init: "tracker_inv (tracker_init cs rh now)"
  by (simp add: tracker_inv_def tracker_init_def no_detections_def)

lemma timestamp_or_nonzero: "clock \<noteq> 0 \<Longrightarrow> timestamp_or ts clock \<noteq> 0"
  by (cases ts) (auto simp: timestamp_or_def truthy_def)

lemma mark_detected_cases:
  "mark_detected fts t c ts clock = (res, t') \<Longrightarrow>
     t' = t \<or>
     (c \<in> set (carriers t) \<and> detections t c = Some None \<and>
      t' = t\<lparr>detections := (detections t)(c \<mapsto> Some (timestamp_or ts clock))\<rparr> \<and>
      (case fts (timestamp_or ts clock) of Inl e \<Rightarrow> res = Inl e | Inr dt \<Rightarrow> res = Inr True))"
  by (auto simp: mark_detected_def Let_def split: if_splits option.splits sum.splits)

lemma tracker_inv_mark:
  assumes "tracker_inv t" "clock \<noteq> 0" "mark_detected fts t c ts clock = (res, t')"
  shows "tracker_inv t'"
proof -
  from mark_detected_cases[OF assms(3)] show ?thesis
  proof
    assume "t' = t"
    then show ?thesis using assms(1) by simp
  next
    assume h: "c \<in> set (carriers t) \<and> detections t c = Some None \<and>
      t' = t\<lparr>detections := (detections t)(c \<mapsto> Some (timestamp_or ts clock))\<rparr> \<and>
      (case fts (timestamp_or ts clock) of Inl e \<Rightarrow> res = Inl e | Inr dt \<Rightarrow> res = Inr True)"
    then show ?thesis
      using assms(1) timestamp_or_nonzero[OF assms(2), of ts]
      by (auto simp: tracker_inv_def)
  qed
qed

lemma tracker_inv_reset:
  assumes "tracker_inv t" "check_and_reset t now = (b, t')"
  shows "tracker_inv t'"
  using assms
  by (auto simp: check_and_reset_def Let_def tracker_inv_def no_detections_def split: if_splits)

lemma reachable_inv: "reachable fts t \<Longrightarrow> tracker_inv t"
  by (induction rule: reachable.induct)
     (auto intro: tracker_inv_init tracker_inv_mark tracker_inv_reset)

lemma stored_accepted_init: "stored_accepted fts (tracker_init cs rh now)"
  by (simp add: stored_accepted_def tracker_init_def no_detections_def)

lemma stored_accepted_mark:
  assumes "stored_accepted fts t" "mark_detected fts t c ts clock = (Inr b, t')"
  shows "stored_accepted fts t'"
proof -
  from mark_detected_cases[OF assms(2)] show ?thesis
  proof
    assume "t' = t"
    then show ?thesis using assms(1) by simp
  next
    assume h: "c \<in> set (carriers t) \<and> detections t c = Some None \<and>
      t' = t\<lparr>detections := (detections t)(c \<mapsto> Some (timestamp_or ts clock))\<rparr> \<and>
      (case fts (timestamp_or ts clock) of Inl e \<Rightarrow> Inr b = Inl e | Inr dt \<Rightarrow> Inr b = Inr True)"
    then obtain dt where "fts (timestamp_or ts clock) = Inr dt"
      by (cases "fts (timestamp_or ts clock)") auto
    then show ?thesis using h assms(1) by (auto simp: stored_accepted_def)
  qed
qed

lemma stored_accepted_reset:
  assumes "stored_accepted fts t" "check_and_reset t now = (b, t')"
  shows "stored_accepted fts t'"
  using assms
  by (auto simp: check_and_reset_def Let_def stored_accepted_def no_detections_def
      split: if_splits)

lemma summary_loop_ok:
  assumes "\<forall>c \<in> set cs. d c \<noteq> None"
    and "\<forall>c v. d c = Some (Some v) \<longrightarrow> (\<exists>dt. fts v = Inr dt)"
  shows "\<exists>m. summary_loop fts d cs acc = Inr m \<and>
           (\<forall>c. m c = (if c \<in> set cs
                        then Some (if truthy (the (d c)) then \<lparr>detected = True, timestamp = the (d c)\<rparr>
                                   else \<lparr>detected = False, timestamp = None\<rparr>)
                        else acc c))"
  using assms(1)
proof (induction cs arbitrary: acc)
  case Nil
  then show ?case by simp
next
  case (Cons a cs)
  then obtain v where v: "d a = Some v" by auto
  let ?e = "if truthy v then \<lparr>detected = True, timestamp = v\<rparr>
            else \<lparr>detected = False, timestamp = None\<rparr>"
  let ?acc = "acc(a \<mapsto> ?e)"
  have step: "summary_loop fts d (a # cs) acc = summary_loop fts d cs ?acc"
  proof (cases "truthy v")
    case True
    then obtain x where x: "v = Some x" by (cases v) (auto simp: truthy_def)
    with assms(2) v obtain dt where "fts x = Inr dt" by blast
    then show ?thesis using v x True by simp
  next
    case False
    then show ?thesis using v by simp
  qed
  from Cons.prems have "\<forall>c \<in> set cs. d c \<noteq> None" by simp
  from Cons.IH[OF this, of ?acc] obtain m where
    m: "summary_loop fts d cs ?acc = Inr m"
       "\<forall>c. m c = (if c \<in> set cs
                        then Some (if truthy (the (d c)) then \<lparr>detected = True, timestamp = the (d c)\<rparr>
                                   else \<lparr>detected = False, timestamp = None\<rparr>)
                        else ?acc c)"
    by blast
  have "summary_loop fts d (a # cs) acc = Inr m" using step m(1) by simp
  moreover have "\<forall>c. m c = (if c \<in> set (a # cs)
                        then Some (if truthy (the (d c)) then \<lparr>detected = True, timestamp = the (d c)\<rparr>
                                   else \<lparr>detected = False, timestamp = None\<rparr>)
                        else acc c)"
    using m(2) v by auto
  ultimately show ?case by blast
qed

lemma get_summary_inv:
  assumes "tracker_inv t" "stored_accepted fts t"
  shows "\<exists>s. get_summary fts t = Inr s \<and> date s = ordinal (current_day t) \<and>
           (\<forall>c. entries s c =
              (if c \<in> set (carriers t)
               then Some (if truthy (the (detections t c))
                          then \<lparr>detected = True, timestamp = the (detections t c)\<rparr>
                          else \<lparr>detected = False, timestamp = None\<rparr>)
               else None))"
proof -
  have k: "\<forall>c \<in> set (carriers t). detections t c \<noteq> None"
    using assms(1) by (simp add: tracker_inv_def)
  have a: "\<forall>c v. detections t c = Some (Some v) \<longrightarrow> (\<exists>dt. fts v = Inr dt)"
    using assms(2) by (simp add: stored_accepted_def)
  from summary_loop_ok[OF k a, of Map.empty] obtain m where
    m: "summary_loop fts (detections t) (carriers t) Map.empty = Inr m"
       "\<forall>c. m c = (if c \<in> set (carriers t)
                        then Some (if truthy (the (detections t c)) then \<lparr>detected = True, timestamp = the (detections t c)\<rparr>
                                   else \<lparr>detected = False, timestamp = None\<rparr>)
                        else None)"
    by auto
  show ?thesis using m by (simp add: get_summary_def)
qed

text \<open>
  Claim C10, as amended. In every tracker state reachable through the constructor,
  \<open>mark_detected\<close> and \<open>check_and_reset\<close> in which every recorded timestamp is one that
  \<open>datetime.fromtimestamp\<close> accepts, \<open>get_summary\<close> returns, and \<open>is_detected c\<close> holds
  exactly when the summary has an entry for \<open>c\<close> with \<open>detected = True\<close>: a recorded
  timestamp is never zero, since \<open>mark_detected\<close> records the clock reading in place of a
  missing or zero argument. The recorded timestamps are all accepted as long as no call of
  \<open>mark_detected\<close> has raised (\<open>stored_accepted_init\<close>, \<open>stored_accepted_mark\<close>,
  \<open>stored_accepted_reset\<close>).
\<close>

theorem is_detected_agrees_with_summary:
  assumes "reachable fts t" "stored_accepted fts t"
  shows "\<exists>s. get_summary fts t = Inr s \<and>
           (\<forall>c. is_detected t c \<longleftrightarrow> (\<exists>e. entries s c = Some e \<and> detected e))"
proof -
  have inv: "tracker_inv t" using assms(1) by (rule reachable_inv)
  from get_summary_inv[OF inv assms(2)] obtain s where
    s: "get_summary fts t = Inr s"
       "\<forall>c. entries s c =
              (if c \<in> set (carriers t)
               then Some (if truthy (the (detections t c))
                          then \<lparr>detected = True, timestamp = the (detections t c)\<rparr>
                          else \<lparr>detected = False, timestamp = None\<rparr>)
               else None)"
    by blast
  have "is_detected t c \<longleftrightarrow> (\<exists>e. entries s c = Some e \<and> detected e)" for c
  proof (cases "detections t c")
    case None
    then have "c \<notin> set (carriers t)" using inv by (simp add: tracker_inv_def)
    then show ?thesis using None s(2) by (simp add: is_detected_def)
  next
    case (Some v)
    then have c: "c \<in> set (carriers t)" using inv by (simp add: tracker_inv_def)
    show ?thesis
    proof (cases v)
      case None
      then show ?thesis using Some c s(2) by (simp add: is_detected_def truthy_def)
    next
      case (Some x)
      then have "x \<noteq> 0" using \<open>detections t c = Some v\<close> inv by (simp add: tracker_inv_def)
      then show ?thesis using Some \<open>detections t c = Some v\<close> c s(2)
        by (simp add: is_detected_def truthy_def)
    qed
  qed
  then show ?thesis using s(1) by blast
qed

lemma ex_fromtimestamp_day: 
  "ex_fromtimestamp 1791756000 =
     Inr \<lparr>ordinal = 739900, hour = 22, minute = 0, second = 0, microsecond = 0\<rparr>"
  by (simp add: ex_fromtimestamp_def round_half_even_def Let_def)

lemma ex_fromtimestamp_far: "ex_fromtimestamp 1000000000000000000 = Inl ValueError"
  by (simp add: ex_fromtimestamp_def round_half_even_def Let_def)

lemma ex_tracker_day_fields:
  "carriers ex_tracker_day = [''ups'', ''usps'']" "reset_hour ex_tracker_day = 3"
  "detections ex_tracker_day = no_detections [''ups'', ''usps'']"
  "current_day ex_tracker_day =
     \<lparr>ordinal = 739900, hour = 0, minute = 0, second = 0, microsecond = 0\<rparr>"
  by (simp_all add: ex_tracker_day_def tracker_init_def ex_morning_def get_current_day_def
      at_midnight_def)

lemma mark_ex_marked:
  "mark_detected ex_fromtimestamp ex_tracker_day ''ups'' (Some 1791756000) 1791756001
     = (Inr True, ex_marked)"
  by (simp add: mark_detected_def ex_marked_def ex_tracker_day_fields no_detections_def
      timestamp_or_def truthy_def ex_fromtimestamp_day Let_def)

lemma mark_ex_marked_far:
  "mark_detected ex_fromtimestamp ex_tracker_day ''ups'' (Some 1000000000000000000) 1791756001
     = (Inl ValueError, ex_marked_far)"
  by (simp add: mark_detected_def ex_marked_far_def ex_tracker_day_fields no_detections_def
      timestamp_or_def truthy_def ex_fromtimestamp_far Let_def)

theorem is_detected_agrees_with_summary_witness:
  "reachable ex_fromtimestamp ex_marked \<and> stored_accepted ex_fromtimestamp ex_marked \<and>
   is_detected ex_marked ''ups'' \<and> \<not> is_detected ex_marked ''usps'' \<and>
   (\<exists>s. get_summary ex_fromtimestamp ex_marked = Inr s \<and>
        (\<forall>c. is_detected ex_marked c \<longleftrightarrow> (\<exists>e. entries s c = Some e \<and> detected e)))"
proof -
  have r0: "reachable ex_fromtimestamp ex_tracker_day"
    unfolding ex_tracker_day_def by (rule r_init)
  have r: "reachable ex_fromtimestamp ex_marked"
    by (rule r_mark[OF r0 _ mark_ex_marked]) simp
  have a0: "stored_accepted ex_fromtimestamp ex_tracker_day"
    unfolding ex_tracker_day_def by (rule stored_accepted_init)
  have a: "stored_accepted ex_fromtimestamp ex_marked"
    by (rule stored_accepted_mark[OF a0 mark_ex_marked])
  have d: "is_detected ex_marked ''ups'' \<and> \<not> is_detected ex_marked ''usps''"
    by (simp add: is_detected_def ex_marked_def ex_tracker_day_fields no_detections_def)
  show ?thesis using r a d is_detected_agrees_with_summary[OF r a] by blast
qed

text \<open>
  The claim C10 as it was stated fails: \<open>mark_detected\<close> with the timestamp \<open>10\<^sup>1\<^sup>8\<close>
  stores the timestamp and then raises in its log line; in the state it leaves,
  \<open>is_detected\<close> holds for the carrier and \<open>get_summary\<close> raises.
\<close>

theorem is_detected_agrees_with_summary_counterexample:
  "reachable ex_fromtimestamp ex_marked_far \<and>
   mark_detected ex_fromtimestamp ex_tracker_day ''ups'' (Some 1000000000000000000) 1791756001
     = (Inl ValueError, ex_marked_far) \<and>
   is_detected ex_marked_far ''ups'' \<and>
   get_summary ex_fromtimestamp ex_marked_far = Inl ValueError"
proof -
  have r0: "reachable ex_fromtimestamp ex_tracker_day"
    unfolding ex_tracker_day_def by (rule r_init)
  have r: "reachable ex_fromtimestamp ex_marked_far"
    by (rule r_mark[OF r0 _ mark_ex_marked_far]) simp
  have d: "is_detected ex_marked_far ''ups''"
    by (simp add: is_detected_def ex_marked_far_def)
  have g: "get_summary ex_fromtimestamp ex_marked_far = Inl ValueError"
    by (simp add: get_summary_def ex_marked_far_def ex_tracker_day_fields no_detections_def
        truthy_def ex_fromtimestamp_far)
  show ?thesis using r mark_ex_marked_far d g by blast
qed

lemma check_and_reset_same_day:
  assumes "\<not> dt_less (current_day t) (get_current_day (reset_hour t) now)"
  shows "check_and_reset t now = (False, t)"
  using assms by (simp add: check_and_reset_def)

lemma check_each_no_reset:
  assumes "\<forall>n \<in> set nows. \<not> dt_less (current_day t) (get_current_day (reset_hour t) n)"
  shows "check_each t nows = (replicate (length nows) False, t)"
  using assms
  by (induction nows) (simp_all add: check_and_reset_same_day)



text \<open>
  Claim C4. With reset hour \<open>rh\<close>, the current day is the midnight of today's date when
  the local hour is at least \<open>rh\<close>, and the midnight of yesterday's date when it is below.
  \<open>check_and_reset\<close> clears every carrier and adopts the recomputed day exactly when that
  day is strictly later than the stored one; otherwise it changes nothing. So for calls at
  any clock readings of one later tracker day \<open>d\<close>, the first call resets and no other does.
\<close>

theorem reset_once_per_day:
  "get_current_day rh now =
      \<lparr>ordinal = (if rh \<le> int (hour now) then ordinal now else ordinal now - 1),
       hour = 0, minute = 0, second = 0, microsecond = 0\<rparr> \<and>
   check_and_reset t now =
      (if dt_less (current_day t) (get_current_day (reset_hour t) now)
       then (True, t\<lparr>detections := no_detections (carriers t),
                      current_day := get_current_day (reset_hour t) now\<rparr>)
       else (False, t)) \<and>
   (\<forall>c \<in> set (carriers t). no_detections (carriers t) c = Some None) \<and>
   (dt_less (current_day t) d \<and> (\<forall>n \<in> set (n0 # nows). get_current_day (reset_hour t) n = d) \<longrightarrow>
      check_each t (n0 # nows) =
        (True # replicate (length nows) False,
         t\<lparr>detections := no_detections (carriers t), current_day := d\<rparr>))"
proof (intro conjI impI)
  show "get_current_day rh now =
      \<lparr>ordinal = (if rh \<le> int (hour now) then ordinal now else ordinal now - 1),
       hour = 0, minute = 0, second = 0, microsecond = 0\<rparr>"
    by (simp add: get_current_day_def at_midnight_def minus_one_day_def)
  show "check_and_reset t now =
      (if dt_less (current_day t) (get_current_day (reset_hour t) now)
       then (True, t\<lparr>detections := no_detections (carriers t),
                      current_day := get_current_day (reset_hour t) now\<rparr>)
       else (False, t))"
    by (simp add: check_and_reset_def)
  show "\<forall>c \<in> set (carriers t). no_detections (carriers t) c = Some None"
    by (simp add: no_detections_def)
next
  assume h: "dt_less (current_day t) d \<and>
             (\<forall>n \<in> set (n0 # nows). get_current_day (reset_hour t) n = d)"
  define t' where "t' = t\<lparr>detections := no_detections (carriers t), current_day := d\<rparr>"
  have first: "check_and_reset t n0 = (True, t')"
    using h by (simp add: check_and_reset_def t'_def)
  have "\<forall>n \<in> set nows. \<not> dt_less (current_day t') (get_current_day (reset_hour t') n)"
    using h by (simp add: t'_def dt_less_irrefl)
  then have rest: "check_each t' nows = (replicate (length nows) False, t')"
    by (rule check_each_no_reset)
  show "check_each t (n0 # nows) =
        (True # replicate (length nows) False,
         t\<lparr>detections := no_detections (carriers t), current_day := d\<rparr>)"
    using first rest by (simp add: t'_def)
qed


theorem reset_once_per_day_witness:
  "dt_less (current_day ex_tracker) (get_current_day 3 ex_morning) \<and>
   get_current_day (reset_hour ex_tracker) ex_noon = get_current_day 3 ex_morning \<and>
   get_current_day (reset_hour ex_tracker) ex_morning = get_current_day 3 ex_morning \<and>
   ordinal (current_day ex_tracker) = 739899 \<and>
   ordinal (get_current_day 3 ex_morning) = 739900 \<and>
   fst (check_each ex_tracker [ex_morning, ex_noon, ex_noon]) = [True, False, False]"
proof -
  have h1: "dt_less (current_day ex_tracker) (get_current_day 3 ex_morning)"
    by (simp add: ex_tracker_def ex_night_def ex_morning_def tracker_init_def
        get_current_day_def at_midnight_def minus_one_day_def dt_less_def)
  have h2: "\<forall>n \<in> set (ex_morning # [ex_noon, ex_noon]).
              get_current_day (reset_hour ex_tracker) n = get_current_day 3 ex_morning"
    by (simp add: ex_tracker_def ex_morning_def ex_noon_def tracker_init_def
        get_current_day_def at_midnight_def)
  have o1: "ordinal (current_day ex_tracker) = 739899"
    by (simp add: ex_tracker_def ex_night_def tracker_init_def
        get_current_day_def at_midnight_def minus_one_day_def)
  have o2: "ordinal (get_current_day 3 ex_morning) = 739900"
    by (simp add: ex_morning_def get_current_day_def at_midnight_def)
  have "check_each ex_tracker (ex_morning # [ex_noon, ex_noon]) =
          (True # replicate (length [ex_noon, ex_noon]) False,
           ex_tracker\<lparr>detections := no_detections (carriers ex_tracker),
                        current_day := get_current_day 3 ex_morning\<rparr>)"
    using reset_once_per_day[where t = ex_tracker and d = "get_current_day 3 ex_morning"
      and ?n0.0 = ex_morning and nows = "[ex_noon, ex_noon]"] h1 h2 by blast
  then have "fst (check_each ex_tracker [ex_morning, ex_noon, ex_noon]) = [True, False, False]"
    by simp
  then show ?thesis using h1 h2 o1 o2 by simp
qed

section \<open>Properties of the StateReconciler\<close>

lemma lower_examples:
  "lower ''FedEx'' = ''fedex''" "lower ''DHL'' = ''dhl''"
  by code_simp+

lemma coerce_event:
  assumes "event_shaped p"
  shows "coerce_services now p =
           (lower_set (get_list (p_entered p)), lower_set (get_list (p_current p)),
            lower_set (get_list (p_today p)), (case p_ts p of None \<Rightarrow> JVal now | Some v \<Rightarrow> v))"
  using assms by (auto simp: coerce_services_def event_shaped_def)

lemma coerce_services_shape:
  assumes "services_shaped p"
  shows "coerce_services now p = (lower_set (get_list (p_services p)), {}, {}, JVal now)"
  using assms by (auto simp: coerce_services_def event_shaped_def services_shaped_def)

lemma lower_set_empty: "lower_set xs = {} \<longleftrightarrow> xs = []"
  by (simp add: lower_set_def)

lemma ensure_reset_CURR: "CURR (ensure_reset_if_needed R ck st) = CURR st"
  by (simp add: ensure_reset_if_needed_def)

lemma ensure_reset_TODAY:
  "TODAY (ensure_reset_if_needed R ck st) = (if reset_due R ck st then {} else TODAY st)"
  by (simp add: ensure_reset_if_needed_def reset_due_def)

lemma ensure_reset_not_due:
  "\<not> reset_due R ck st \<Longrightarrow> ensure_reset_if_needed R ck st = st"
  by (auto simp: ensure_reset_if_needed_def reset_due_def)

text \<open>
  Claim C5, as amended. For an accepted event-shaped message (its \<open>ts\<close> is not \<open>null\<close>)
  with a non-empty \<open>current\<close> array, handling the message makes \<open>CURR\<close> exactly the
  lower-cased contents of that array. \<open>TODAY\<close> stays as it is when the message has no
  non-empty \<open>today\<close> array and no non-empty \<open>entered\<close> array and no daily reset is due at
  the call; with a non-empty \<open>today\<close> array it becomes the lower-cased contents of that one.
\<close>

theorem event_current_replaces:
  assumes "event_shaped p" "p_ts p \<noteq> Some JNull" "p_current p = Some cs" "cs \<noteq> []"
  shows "CURR (on_message R ck st (Some p)) = lower_set cs \<and>
         (get_list (p_today p) = [] \<and> get_list (p_entered p) = [] \<and> \<not> reset_due R ck st
            \<longrightarrow> TODAY (on_message R ck st (Some p)) = TODAY st) \<and>
         (get_list (p_today p) \<noteq> []
            \<longrightarrow> TODAY (on_message R ck st (Some p)) = lower_set (get_list (p_today p)))"
proof -
  have ts: "(case p_ts p of None \<Rightarrow> JVal (now_ts ck) | Some v \<Rightarrow> v) \<noteq> JNull"
    using assms(2) by (cases "p_ts p") auto
  have cur: "lower_set (get_list (p_current p)) = lower_set cs" "lower_set cs \<noteq> {}"
    using assms(3,4) by (simp_all add: get_list_def lower_set_empty)
  show ?thesis
    using ts cur
    by (simp add: on_message_def coerce_event[OF assms(1)] Let_def write_state_def
        ensure_reset_CURR ensure_reset_TODAY lower_set_empty)
qed

theorem event_current_replaces_witness:
  "event_shaped ex_event_current \<and> p_ts ex_event_current \<noteq> Some JNull \<and>
   p_current ex_event_current = Some [''DHL''] \<and> [''DHL''] \<noteq> [] \<and>
   get_list (p_today ex_event_current) = [] \<and> get_list (p_entered ex_event_current) = [] \<and>
   \<not> reset_due 3 ex_clock_same_day ex_sidecar \<and>
   CURR (on_message 3 ex_clock_same_day ex_sidecar (Some ex_event_current)) = {''dhl''} \<and>
   TODAY (on_message 3 ex_clock_same_day ex_sidecar (Some ex_event_current)) = {''ups''}"
proof -
  have h: "event_shaped ex_event_current" "p_ts ex_event_current \<noteq> Some JNull"
    "p_current ex_event_current = Some [''DHL'']" "[''DHL''] \<noteq> []"
    by (simp_all add: ex_event_current_def event_shaped_def)
  have g: "get_list (p_today ex_event_current) = []" "get_list (p_entered ex_event_current) = []"
    "\<not> reset_due 3 ex_clock_same_day ex_sidecar"
    by (simp_all add: ex_event_current_def get_list_def reset_due_def ex_clock_same_day_def
        ex_sidecar_def)
  have l: "lower_set [''DHL''] = {''dhl''}" by (simp add: lower_set_def lower_examples)
  have t: "TODAY ex_sidecar = {''ups''}" by (simp add: ex_sidecar_def)
  from event_current_replaces[OF h, of 3 ex_clock_same_day ex_sidecar]
  show ?thesis using h g l t by simp
qed

text \<open>
  The claim C5 as it was stated fails: an explicit empty \<open>current\<close> array leaves \<open>CURR\<close>
  as it was; an \<open>entered\<close> array beside \<open>current\<close> is merged into \<open>TODAY\<close>; and a reset
  that is due at the call clears \<open>TODAY\<close>.
\<close>

theorem event_current_counterexample:
  "CURR (on_message 3 ex_clock_same_day ex_sidecar (Some ex_event_empty_current)) \<noteq> lower_set [] \<and>
   TODAY (on_message 3 ex_clock_same_day ex_sidecar (Some ex_event_entered_current))
     \<noteq> TODAY ex_sidecar \<and>
   TODAY (on_message 3 ex_clock_next_day ex_sidecar (Some ex_event_current)) \<noteq> TODAY ex_sidecar"
  by (simp add: on_message_def coerce_services_def ensure_reset_if_needed_def write_state_def
      ex_sidecar_def ex_clock_same_day_def ex_clock_next_day_def ex_event_empty_current_def
      ex_event_entered_current_def ex_event_current_def get_list_def lower_set_def
      lower_examples Let_def)


lemma on_message_services:
  assumes "services_shaped p"
  shows "CURR (on_message R ck st (Some p)) = CURR st \<union> lower_set (get_list (p_services p))"
    and "TODAY (on_message R ck st (Some p)) =
           (if reset_due R ck st then {} else TODAY st) \<union> lower_set (get_list (p_services p))"
    and "\<not> reset_due R ck st \<Longrightarrow>
           LAST_RESET_DAY (on_message R ck st (Some p)) = LAST_RESET_DAY st"
  by (simp_all add: on_message_def coerce_services_shape[OF assms] Let_def write_state_def
      ensure_reset_CURR ensure_reset_TODAY ensure_reset_not_due)

lemma reset_due_cong:
  "LAST_RESET_DAY st' = LAST_RESET_DAY st \<Longrightarrow> reset_due R ck st' = reset_due R ck st"
  by (simp add: reset_due_def)

lemma on_messages_services_CURR:
  assumes "\<forall>(ck, m) \<in> set ms. \<exists>p. m = Some p \<and> services_shaped p"
  shows "CURR st \<subseteq> CURR (on_messages R st ms)"
  using assms
proof (induction ms arbitrary: st)
  case Nil
  then show ?case by simp
next
  case (Cons a ms)
  obtain ck m where a: "a = (ck, m)" by (cases a)
  with Cons.prems obtain p where p: "m = Some p" "services_shaped p" by auto
  have "CURR st \<subseteq> CURR (on_message R ck st m)"
    using on_message_services(1)[OF p(2)] p(1) by auto
  moreover have "CURR (on_message R ck st m) \<subseteq> CURR (on_messages R (on_message R ck st m) ms)"
    using Cons.IH Cons.prems by simp
  ultimately show ?case using a by auto
qed

lemma on_messages_services_TODAY:
  assumes "\<forall>(ck, m) \<in> set ms. \<exists>p. m = Some p \<and> services_shaped p"
    and "\<forall>(ck, m) \<in> set ms. \<not> reset_due R ck st"
  shows "TODAY st \<subseteq> TODAY (on_messages R st ms)"
  using assms
proof (induction ms arbitrary: st)
  case Nil
  then show ?case by simp
next
  case (Cons a ms)
  obtain ck m where a: "a = (ck, m)" by (cases a)
  with Cons.prems obtain p where p: "m = Some p" "services_shaped p" by auto
  have nd: "\<not> reset_due R ck st" using Cons.prems(2) a by simp
  let ?st = "on_message R ck st m"
  have step: "TODAY st \<subseteq> TODAY ?st"
    using on_message_services(2)[OF p(2), of R ck st] p(1) nd by auto
  have last: "LAST_RESET_DAY ?st = LAST_RESET_DAY st"
    using on_message_services(3)[OF p(2) nd] p(1) by simp
  have "\<forall>(ck, m) \<in> set ms. \<not> reset_due R ck ?st"
    using Cons.prems(2) reset_due_cong[OF last] by auto
  moreover have "\<forall>(ck, m) \<in> set ms. \<exists>p. m = Some p \<and> services_shaped p"
    using Cons.prems(1) by simp
  ultimately have "TODAY ?st \<subseteq> TODAY (on_messages R ?st ms)"
    using Cons.IH by blast
  with step show ?case using a by auto
qed

text \<open>
  Claim C6, as amended. For a services-shaped message with services \<open>S\<close>, handling it gives
  \<open>CURR' = CURR \<union> lower(S)\<close>, and \<open>TODAY' = TODAY \<union> lower(S)\<close> when no daily reset is due
  at the call; when one is due, \<open>TODAY\<close> is cleared first and \<open>TODAY' = lower(S)\<close>. So a
  sequence of services-shaped messages never loses an entry of \<open>CURR\<close>, and none of
  \<open>TODAY\<close> as long as no reset is due at any of the calls.
\<close>

theorem services_union:
  "(services_shaped p \<and> p_services p = Some S \<longrightarrow>
      CURR (on_message R ck st (Some p)) = CURR st \<union> lower_set S \<and>
      (\<not> reset_due R ck st \<longrightarrow> TODAY (on_message R ck st (Some p)) = TODAY st \<union> lower_set S) \<and>
      (reset_due R ck st \<longrightarrow> TODAY (on_message R ck st (Some p)) = lower_set S)) \<and>
   ((\<forall>(ck, m) \<in> set ms. \<exists>p. m = Some p \<and> services_shaped p) \<longrightarrow>
      CURR st \<subseteq> CURR (on_messages R st ms) \<and>
      ((\<forall>(ck, m) \<in> set ms. \<not> reset_due R ck st) \<longrightarrow> TODAY st \<subseteq> TODAY (on_messages R st ms)))"
proof (intro conjI impI)
  assume h: "services_shaped p \<and> p_services p = Some S"
  then have g: "get_list (p_services p) = S" by (simp add: get_list_def)
  show "CURR (on_message R ck st (Some p)) = CURR st \<union> lower_set S"
    using on_message_services(1)[of p R ck st] h g by simp
  show "TODAY (on_message R ck st (Some p)) = TODAY st \<union> lower_set S" if "\<not> reset_due R ck st"
    using on_message_services(2)[of p R ck st] h g that by simp
  show "TODAY (on_message R ck st (Some p)) = lower_set S" if "reset_due R ck st"
    using on_message_services(2)[of p R ck st] h g that by simp
next
  assume h: "\<forall>(ck, m) \<in> set ms. \<exists>p. m = Some p \<and> services_shaped p"
  show "CURR st \<subseteq> CURR (on_messages R st ms)"
    using h by (rule on_messages_services_CURR)
  show "TODAY st \<subseteq> TODAY (on_messages R st ms)" if "\<forall>(ck, m) \<in> set ms. \<not> reset_due R ck st"
    using h that by (rule on_messages_services_TODAY)
qed

theorem services_union_witness:
  "services_shaped ex_services \<and> p_services ex_services = Some [''FedEx''] \<and>
   \<not> reset_due 3 ex_clock_same_day ex_sidecar \<and> reset_due 3 ex_clock_next_day ex_sidecar \<and>
   CURR (on_message 3 ex_clock_same_day ex_sidecar (Some ex_services)) = {''ups'', ''fedex''} \<and>
   TODAY (on_message 3 ex_clock_same_day ex_sidecar (Some ex_services)) = {''ups'', ''fedex''} \<and>
   TODAY (on_message 3 ex_clock_next_day ex_sidecar (Some ex_services)) = {''fedex''} \<and>
   TODAY ex_sidecar \<subseteq> TODAY (on_messages 3 ex_sidecar
       [(ex_clock_same_day, Some ex_services), (ex_clock_same_day, Some ex_services)])"
proof -
  have s: "services_shaped ex_services \<and> p_services ex_services = Some [''FedEx'']"
    by (simp add: ex_services_def services_shaped_def event_shaped_def)
  have d: "\<not> reset_due 3 ex_clock_same_day ex_sidecar" "reset_due 3 ex_clock_next_day ex_sidecar"
    by (simp_all add: reset_due_def ex_clock_same_day_def ex_clock_next_day_def ex_sidecar_def)
  have a: "\<forall>(ck, m) \<in> set [(ex_clock_same_day, Some ex_services), (ex_clock_same_day, Some ex_services)].
       \<exists>p. m = Some p \<and> services_shaped p"
    using s by simp
  have n: "\<forall>(ck, m) \<in> set [(ex_clock_same_day, Some ex_services), (ex_clock_same_day, Some ex_services)].
       \<not> reset_due 3 ck ex_sidecar"
    using d by simp
  have l: "lower_set [''FedEx''] = {''fedex''}" by (simp add: lower_set_def lower_examples)
  have c: "CURR ex_sidecar = {''ups''}" "TODAY ex_sidecar = {''ups''}" by (simp_all add: ex_sidecar_def)
  note t1 = services_union[of ex_services "[''FedEx'']" 3 ex_clock_same_day ex_sidecar
      "[(ex_clock_same_day, Some ex_services), (ex_clock_same_day, Some ex_services)]"]
  note t2 = services_union[of ex_services "[''FedEx'']" 3 ex_clock_next_day ex_sidecar "[]"]
  have r1: "CURR (on_message 3 ex_clock_same_day ex_sidecar (Some ex_services)) = {''ups'', ''fedex''}"
    using t1 s l c by auto
  have r2: "TODAY (on_message 3 ex_clock_same_day ex_sidecar (Some ex_services)) = {''ups'', ''fedex''}"
    using t1 s d l c by auto
  have r3: "TODAY (on_message 3 ex_clock_next_day ex_sidecar (Some ex_services)) = {''fedex''}"
    using t2 s d l by auto
  have r4: "TODAY ex_sidecar \<subseteq> TODAY (on_messages 3 ex_sidecar
       [(ex_clock_same_day, Some ex_services), (ex_clock_same_day, Some ex_services)])"
    using t1 a n by blast
  show ?thesis using s d a n r1 r2 r3 r4 by blast
qed

text \<open>
  The claim C6 as it was stated fails at a call where the daily reset is due: the entry
  \<open>ups\<close> of \<open>TODAY\<close> is lost.
\<close>

theorem services_union_counterexample:
  "''ups'' \<in> TODAY ex_sidecar \<and>
   ''ups'' \<notin> TODAY (on_message 3 ex_clock_next_day ex_sidecar (Some ex_services))"
  by (simp add: on_message_def coerce_services_def ensure_reset_if_needed_def write_state_def
      ex_sidecar_def ex_clock_next_day_def ex_services_def get_list_def lower_set_def
      lower_examples Let_def)

section \<open>Properties of the ProposalCascade\<close>

lemma py_int_frac: "py_int (real n / (16 / 10)) = int ((5 * n) div 8)"
proof -
  have "real n / (16 / 10) = real (5 * n) / real 8" by simp
  then have "\<lfloor>real n / (16 / 10)\<rfloor> = int ((5 * n) div 8)"
    by (metis floor_divide_of_nat_eq)
  moreover have "real n / (16 / 10) \<ge> 0" by simp
  ultimately show ?thesis by (simp add: py_int_def)
qed

lemma fallback_proposal_eq:
  "fallback_proposal W H =
     ((int W - int ((5 * W) div 8)) div 2, (int H - int ((5 * H) div 8)) div 2,
      (int W - int ((5 * W) div 8)) div 2 + int ((5 * W) div 8),
      (int H - int ((5 * H) div 8)) div 2 + int ((5 * H) div 8), ''center'', 1)"
  unfolding fallback_proposal_def py_int_frac Let_def by simp

lemma slice_len_centered:
  "slice_len n ((int n - int ((5 * n) div 8)) div 2)
     ((int n - int ((5 * n) div 8)) div 2 + int ((5 * n) div 8)) = int ((5 * n) div 8)"
  unfolding slice_len_def slice_bound_def by (simp; linarith)

lemma crop_size_fallback:
  "crop_size W H ((int W - int ((5 * W) div 8)) div 2, (int H - int ((5 * H) div 8)) div 2,
      (int W - int ((5 * W) div 8)) div 2 + int ((5 * W) div 8),
      (int H - int ((5 * H) div 8)) div 2 + int ((5 * H) div 8))
   = int ((5 * H) div 8) * int ((5 * W) div 8) * 3"
  by (simp add: crop_size_def slice_len_centered)

lemma five_eighths_zero: "(5 * n) div 8 = 0 \<longleftrightarrow> n < (2::nat)"
  by presburger

lemma py_take_single:
  "py_take n [p] = (if n \<ge> 1 then [p] else [])"
  by (auto simp: py_take_def)


lemma stage2_single:
  "stage2 W H allow amf names bp [(x1, y1, x2, y2, via, bc)] =
     (if crop_size W H (x1, y1, x2, y2) = 0 then ([], [])
      else (case bp (x1, y1, x2, y2) of
              None \<Rightarrow> ([], [(x1, y1, x2, y2)])
            | Some boxes \<Rightarrow>
                (List.map_filter (brand_box_hit W H allow amf names x1 y1 via) boxes,
                 [(x1, y1, x2, y2)])))"
  by (simp split: option.splits)

lemma brand_runs_fallback:
  "brand_runs (two_stage_hits W H [] allow amf mvc names bp) =
     (if 1 \<le> mvc \<and> 2 \<le> W \<and> 2 \<le> H
      then [((int W - int ((5 * W) div 8)) div 2, (int H - int ((5 * H) div 8)) div 2,
             (int W - int ((5 * W) div 8)) div 2 + int ((5 * W) div 8),
             (int H - int ((5 * H) div 8)) div 2 + int ((5 * H) div 8))]
      else [])"
proof -
  let ?r = "((int W - int ((5 * W) div 8)) div 2, (int H - int ((5 * H) div 8)) div 2,
             (int W - int ((5 * W) div 8)) div 2 + int ((5 * W) div 8),
             (int H - int ((5 * H) div 8)) div 2 + int ((5 * H) div 8))"
  have cs: "crop_size W H ?r = 0 \<longleftrightarrow> W < 2 \<or> H < 2"
    unfolding crop_size_fallback using five_eighths_zero[of W] five_eighths_zero[of H] by auto
  show ?thesis
  proof (cases "1 \<le> mvc")
    case False
    then show ?thesis
      by (simp add: two_stage_hits_def with_fallback_def py_take_single Let_def)
  next
    case True
    then show ?thesis
      using cs
      by (auto simp add: two_stage_hits_def with_fallback_def py_take_single Let_def
          fallback_proposal_eq stage2_single simp del: stage2.simps split: option.splits)
  qed
qed

text \<open>
  Claim C7, as amended. When stage 1 gives no proposal for a frame of width \<open>W\<close> and
  height \<open>H\<close>, exactly one fallback proposal is used: the centered rectangle of width
  \<open>int(W/1.6)\<close> and height \<open>int(H/1.6)\<close> (five eighths of each side, rounded down). The
  brand model is run on that crop, and only on it, when \<open>max_vehicle_crops\<close> is at least
  1 and the crop is not empty, which is when \<open>W\<close> and \<open>H\<close> are at least 2; otherwise the
  brand model is not run.
\<close>

theorem fallback_runs_brand_stage:
  "with_fallback W H [] = [fallback_proposal W H] \<and>
   proposal_count (two_stage_hits W H [] allow amf mvc names bp) = 1 \<and>
   fallback_proposal W H =
     ((int W - py_int (real W / (16 / 10))) div 2, (int H - py_int (real H / (16 / 10))) div 2,
      (int W - py_int (real W / (16 / 10))) div 2 + py_int (real W / (16 / 10)),
      (int H - py_int (real H / (16 / 10))) div 2 + py_int (real H / (16 / 10)), ''center'', 1) \<and>
   py_int (real W / (16 / 10)) = int ((5 * W) div 8) \<and>
   py_int (real H / (16 / 10)) = int ((5 * H) div 8) \<and>
   (1 \<le> mvc \<and> 2 \<le> W \<and> 2 \<le> H \<longrightarrow>
      brand_runs (two_stage_hits W H [] allow amf mvc names bp) =
        [((int W - int ((5 * W) div 8)) div 2, (int H - int ((5 * H) div 8)) div 2,
          (int W - int ((5 * W) div 8)) div 2 + int ((5 * W) div 8),
          (int H - int ((5 * H) div 8)) div 2 + int ((5 * H) div 8))]) \<and>
   (mvc < 1 \<or> W < 2 \<or> H < 2 \<longrightarrow>
      brand_runs (two_stage_hits W H [] allow amf mvc names bp) = [])"
proof (intro conjI)
  show "with_fallback W H [] = [fallback_proposal W H]" by (simp add: with_fallback_def)
  show "proposal_count (two_stage_hits W H [] allow amf mvc names bp) = 1"
    by (simp add: two_stage_hits_def with_fallback_def Let_def split: prod.splits)
  show "fallback_proposal W H =
     ((int W - py_int (real W / (16 / 10))) div 2, (int H - py_int (real H / (16 / 10))) div 2,
      (int W - py_int (real W / (16 / 10))) div 2 + py_int (real W / (16 / 10)),
      (int H - py_int (real H / (16 / 10))) div 2 + py_int (real H / (16 / 10)), ''center'', 1)"
    unfolding fallback_proposal_def Let_def by (rule refl)
  show "py_int (real W / (16 / 10)) = int ((5 * W) div 8)" by (rule py_int_frac)
  show "py_int (real H / (16 / 10)) = int ((5 * H) div 8)" by (rule py_int_frac)
  show "1 \<le> mvc \<and> 2 \<le> W \<and> 2 \<le> H \<longrightarrow>
      brand_runs (two_stage_hits W H [] allow amf mvc names bp) =
        [((int W - int ((5 * W) div 8)) div 2, (int H - int ((5 * H) div 8)) div 2,
          (int W - int ((5 * W) div 8)) div 2 + int ((5 * W) div 8),
          (int H - int ((5 * H) div 8)) div 2 + int ((5 * H) div 8))]"
    by (simp add: brand_runs_fallback)
  show "mvc < 1 \<or> W < 2 \<or> H < 2 \<longrightarrow>
      brand_runs (two_stage_hits W H [] allow amf mvc names bp) = []"
    by (auto simp add: brand_runs_fallback)
qed

theorem fallback_runs_brand_stage_witness:
  "(1::int) \<le> 16 \<and> (2::nat) \<le> 640 \<and> (2::nat) \<le> 480 \<and>
   fallback_proposal 640 480 = (120, 90, 520, 390, ''center'', 1) \<and>
   brand_runs (two_stage_hits 640 480 [] None (3 / 10000) 16 ex_brand_names ex_brand_predict)
     = [(120, 90, 520, 390)] \<and>
   brand_runs (two_stage_hits 640 480 [] None (3 / 10000) 0 ex_brand_names ex_brand_predict) = []"
proof -
  note t = fallback_runs_brand_stage[of 640 480 None "3 / 10000" 16 ex_brand_names ex_brand_predict]
  note u = fallback_runs_brand_stage[of 640 480 None "3 / 10000" 0 ex_brand_names ex_brand_predict]
  have f: "fallback_proposal 640 480 = (120, 90, 520, 390, ''center'', 1)"
    by (simp add: fallback_proposal_def py_int_def)
  have "brand_runs (two_stage_hits 640 480 [] None (3 / 10000) 16 ex_brand_names ex_brand_predict)
     = [(120, 90, 520, 390)]"
    using t by simp
  moreover have "brand_runs (two_stage_hits 640 480 [] None (3 / 10000) 0 ex_brand_names ex_brand_predict) = []"
    using u by simp
  ultimately show ?thesis using f by simp
qed

text \<open>
  The claim C7 as it was stated fails: with \<open>max_vehicle_crops = 0\<close> the slice of the
  proposals is empty, and on a frame of one pixel the fallback crop is empty and is skipped;
  in both cases the brand model is not run.
\<close>

theorem fallback_runs_brand_stage_counterexample:
  "brand_runs (two_stage_hits 640 480 [] None (3 / 10000) 0 ex_brand_names ex_brand_predict) = [] \<and>
   brand_runs (two_stage_hits 1 1 [] None (3 / 10000) 16 ex_brand_names ex_brand_predict) = [] \<and>
   proposal_count (two_stage_hits 1 1 [] None (3 / 10000) 16 ex_brand_names ex_brand_predict) = 1"
  by (simp add: two_stage_hits_def with_fallback_def fallback_proposal_def py_int_def py_take_def
      crop_size_def slice_len_def slice_bound_def Let_def)

section \<open>Properties of the TensorDecoder\<close>

lemma orient_shape: "shape1 (orient a) \<le> shape0 (orient a)"
  by (simp add: orient_def transpose2_def)

text \<open>
  Claim C8. The decoder transposes the array exactly when its first axis is shorter than
  its second, and for every array that then has fewer than six columns it returns the empty
  result (no boxes, no class ids, no confidences) and raises nothing.
\<close>

theorem degenerate_tensor_empty:
  "orient a = (if shape0 a < shape1 a then transpose2 a else a) \<and>
   shape0 (transpose2 a) = shape1 a \<and> shape1 (transpose2 a) = shape0 a \<and>
   (\<forall>i j. elem (transpose2 a) i j = elem a j i) \<and>
   (drop_batch t = Inr a \<and> shape1 (orient a) < 6 \<longrightarrow>
      decode_yolo_output (t # rest) conf_threshold img_width img_height imgsz = Inr ([], [], []))"
  by (simp add: orient_def transpose2_def decode_yolo_output_def Let_def)

theorem degenerate_tensor_empty_witness:
  "drop_batch (Tensor3 [ex_wide]) = Inr ex_wide \<and> shape0 ex_wide < shape1 ex_wide \<and>
   shape0 (orient ex_wide) = 7 \<and> shape1 (orient ex_wide) = 2 \<and>
   decode_yolo_output [Tensor3 [ex_wide]] (3 / 10) 640 480 640 = Inr ([], [], []) \<and>
   decode_yolo_output [Tensor2 ex_small] (3 / 10) 0 0 640 = Inr ([], [], [])"
proof -
  have a: "drop_batch (Tensor3 [ex_wide]) = Inr ex_wide" by (simp add: drop_batch_def)
  have b: "shape0 ex_wide < shape1 ex_wide" "shape0 (orient ex_wide) = 7" "shape1 (orient ex_wide) = 2"
    by (simp_all add: ex_wide_def np_array_def orient_def transpose2_def)
  have c: "drop_batch (Tensor2 ex_small) = Inr ex_small" by (simp add: drop_batch_def)
  have d: "shape1 (orient ex_small) < 6"
    by (simp add: ex_small_def np_array_def orient_def transpose2_def)
  have "decode_yolo_output [Tensor3 [ex_wide]] (3 / 10) 640 480 640 = Inr ([], [], [])"
    using degenerate_tensor_empty[of ex_wide "Tensor3 [ex_wide]" "[]" "3/10" 640 480 640] a b by simp
  moreover have "decode_yolo_output [Tensor2 ex_small] (3 / 10) 0 0 640 = Inr ([], [], [])"
    using degenerate_tensor_empty[of ex_small "Tensor2 ex_small" "[]" "3/10" 0 0 640] c d by simp
  ultimately show ?thesis using a b by simp
qed


lemma upt_6: "[0..<6] = [0, 1, 2, 3, 4, 5]"
  by code_simp

lemma decode_ex_probs_over_one:
  "decode_yolo_output [Tensor2 ex_probs_over_one] (3 / 10) 640 480 640
     = Inr ([(8, 0, 12, 0)], [0], [144 / 100])"
  by (simp add: decode_yolo_output_def drop_batch_def ex_probs_over_one_def np_array_def
      orient_def ensure_probs_def cols_xywh_def col_obj_def cols_cls_def argmax_def upt_6
      masked_def unletterbox_def clip_def Let_def)

lemma sigmoid_bounds: "0 < sigmoid x" "sigmoid x < 1"
proof -
  have p: "0 < 1 + exp (- x)" by (simp add: add_pos_pos)
  then show "0 < sigmoid x" by (simp add: sigmoid_def)
  show "sigmoid x < 1" unfolding sigmoid_def divide_less_eq_1_pos[OF p] by simp
qed

lemma argmax_from_range:
  "argmax_from bi bv i xs = bi \<or> (\<exists>k < length xs. argmax_from bi bv i xs = i + k)"
proof (induction xs arbitrary: bi bv i)
  case Nil
  then show ?case by simp
next
  case (Cons x xs)
  show ?case
  proof (cases "x > bv")
    case True
    from Cons.IH[of i x "Suc i"] show ?thesis
    proof
      assume "argmax_from i x (Suc i) xs = i"
      then have "argmax_from bi bv i (x # xs) = i + 0" using True by simp
      then show ?thesis by (metis length_greater_0_conv list.distinct(1))
    next
      assume "\<exists>k < length xs. argmax_from i x (Suc i) xs = Suc i + k"
      then obtain k where "k < length xs" "argmax_from i x (Suc i) xs = Suc i + k" by blast
      then have "Suc k < length (x # xs)" "argmax_from bi bv i (x # xs) = i + Suc k"
        using True by simp_all
      then show ?thesis by blast
    qed
  next
    case False
    from Cons.IH[of bi bv "Suc i"] show ?thesis
    proof
      assume "argmax_from bi bv (Suc i) xs = bi"
      then show ?thesis using False by simp
    next
      assume "\<exists>k < length xs. argmax_from bi bv (Suc i) xs = Suc i + k"
      then obtain k where "k < length xs" "argmax_from bi bv (Suc i) xs = Suc i + k" by blast
      then have "Suc k < length (x # xs)" "argmax_from bi bv i (x # xs) = i + Suc k"
        using False by simp_all
      then show ?thesis by blast
    qed
  qed
qed

lemma argmax_less: "row \<noteq> [] \<Longrightarrow> argmax row < length row"
proof -
  assume "row \<noteq> []"
  then obtain x xs where r: "row = x # xs" by (cases row) auto
  from argmax_from_range[of 0 x 1 xs] show ?thesis
    by (auto simp: argmax_def r)
qed

lemma masked_map_set:
  "set (masked (map P xs) xs) = {x \<in> set xs. P x}"
  by (induction xs) (auto simp: masked_def)

lemma ensure_probs_cases:
  assumes "obj \<noteq> []" "concat cls \<noteq> []"
  shows "ensure_probs obj cls =
           (if \<exists>v \<in> set obj \<union> set (concat cls). v > 15 / 10 \<or> v < - (5 / 10)
            then Inr (map sigmoid obj, map (map sigmoid) cls)
            else Inr (obj, cls))"
proof -
  have fo: "finite (set obj)" "set obj \<noteq> {}" using assms(1) by simp_all
  have fc: "finite (set (concat cls))" "set (concat cls) \<noteq> {}"
    using assms(2) by (simp_all del: set_concat)
  have o: "Max (set obj) > 15 / 10 \<longleftrightarrow> (\<exists>v \<in> set obj. v > 15 / 10)"
    "Min (set obj) < - (5 / 10) \<longleftrightarrow> (\<exists>v \<in> set obj. v < - (5 / 10))"
    by (rule Max_gr_iff[OF fo], rule Min_less_iff[OF fo])
  have c: "Max (set (concat cls)) > 15 / 10 \<longleftrightarrow> (\<exists>v \<in> set (concat cls). v > 15 / 10)"
    "Min (set (concat cls)) < - (5 / 10) \<longleftrightarrow> (\<exists>v \<in> set (concat cls). v < - (5 / 10))"
    by (rule Max_gr_iff[OF fc], rule Min_less_iff[OF fc])
  show ?thesis
    unfolding ensure_probs_def o c using assms by (auto simp del: set_concat)
qed


lemma decode_nondegenerate:
  assumes db: "drop_batch t = Inr o1" and six: "\<not> shape1 (orient o1) < 6"
  shows "decode_yolo_output (t # rest) thr w h imgsz =
     (let o2 = orient o1;
          obj = (if logits_seen o2 then map sigmoid (col_obj o2) else col_obj o2);
          cls = (if logits_seen o2 then map (map sigmoid) (cols_cls o2) else cols_cls o2);
          cls_ids = map argmax cls;
          cls_max = map (\<lambda>(row, k). row ! k) (zip cls cls_ids);
          conf = map (\<lambda>(a, b). a * b) (zip obj cls_max);
          msk = map (\<lambda>c. c \<ge> thr) conf
      in if \<not> (\<exists>m \<in> set msk. m) then Inr ([], [], [])
         else if w = 0 \<or> h = 0 then Inl ZeroDivisionError
         else
           let scale = min (real_of_int imgsz / real_of_int w) (real_of_int imgsz / real_of_int h);
               pad_x = (real_of_int imgsz - real_of_int w * scale) / 2;
               pad_y = (real_of_int imgsz - real_of_int h * scale) / 2
           in Inr (map (unletterbox scale pad_x pad_y (real_of_int w) (real_of_int h))
                     (masked msk (cols_xywh o2)),
                   masked msk cls_ids, masked msk conf))"
proof -
  define o2 where "o2 = orient o1"
  have "shape1 o2 \<le> shape0 o2" unfolding o2_def by (rule orient_shape)
  then have npos: "0 < shape0 o2" and kpos: "0 < shape1 o2 - 5" using six by (simp_all add: o2_def)
  have obj_ne: "col_obj o2 \<noteq> []" using npos by (simp add: col_obj_def)
  have cls_ne: "concat (cols_cls o2) \<noteq> []"
    using npos kpos by (auto simp add: cols_cls_def)
  have ep: "ensure_probs (col_obj o2) (cols_cls o2) =
      Inr (if logits_seen o2 then map sigmoid (col_obj o2) else col_obj o2,
           if logits_seen o2 then map (map sigmoid) (cols_cls o2) else cols_cls o2)"
    unfolding ensure_probs_cases[OF obj_ne cls_ne] logits_seen_def by simp
  show ?thesis
    using db six ep
    by (simp add: decode_yolo_output_def o2_def[symmetric] Let_def)
qed



lemma decode_confs:
  assumes db: "drop_batch t = Inr o1"
    and dec: "decode_yolo_output (t # rest) thr w h imgsz = Inr (boxes, ids, confs)"
    and c: "c \<in> set confs"
  shows "\<exists>i < shape0 (orient o1). \<exists>j < shape1 (orient o1) - 5. thr \<le> c \<and>
           c = (if logits_seen (orient o1)
                then sigmoid (elem (orient o1) i 4) * sigmoid (elem (orient o1) i (5 + j))
                else elem (orient o1) i 4 * elem (orient o1) i (5 + j))"
proof -
  define o2 where "o2 = orient o1"
  define n where "n = shape0 o2"
  define k where "k = shape1 o2 - 5"
  have six: "\<not> shape1 o2 < 6"
  proof
    assume "shape1 o2 < 6"
    then have "decode_yolo_output (t # rest) thr w h imgsz = Inr ([], [], [])"
      using db by (simp add: decode_yolo_output_def o2_def Let_def)
    with dec c show False by simp
  qed
  then have kpos: "0 < k" by (simp add: k_def)
  define obj where "obj = (if logits_seen o2 then map sigmoid (col_obj o2) else col_obj o2)"
  define cls where "cls = (if logits_seen o2 then map (map sigmoid) (cols_cls o2) else cols_cls o2)"
  define cls_ids where "cls_ids = map argmax cls"
  define cls_max where "cls_max = map (\<lambda>(row, k). row ! k) (zip cls cls_ids)"
  define conf where "conf = map (\<lambda>(a, b). a * b) (zip obj cls_max)"
  define msk where "msk = map (\<lambda>c. c \<ge> thr) conf"
  have confs_eq: "confs = masked msk conf"
    using dec c unfolding decode_nondegenerate[OF db six[unfolded o2_def]]
    by (auto simp: Let_def o2_def obj_def cls_def cls_ids_def cls_max_def conf_def msk_def
        split: if_splits)
  have "c \<in> {x \<in> set conf. thr \<le> x}"
    using c unfolding confs_eq msk_def masked_map_set .
  then have cin: "c \<in> set conf" and cge: "thr \<le> c" by simp_all
  have len_obj: "length obj = n" by (simp add: obj_def col_obj_def n_def)
  have len_cls: "length cls = n" by (simp add: cls_def cols_cls_def n_def)
  have len_row: "\<And>i. i < n \<Longrightarrow> length (cls ! i) = k"
    by (simp add: cls_def cols_cls_def n_def k_def)
  have len_max: "length cls_max = n" by (simp add: cls_max_def cls_ids_def len_cls)
  from cin obtain i where i: "i < n" "c = obj ! i * cls_max ! i"
    unfolding conf_def using len_obj len_max
    by (auto simp: in_set_conv_nth)
  define j where "j = argmax (cls ! i)"
  have jk: "j < k"
    using argmax_less[of "cls ! i"] len_row[OF i(1)] kpos unfolding j_def by auto
  have mx: "cls_max ! i = cls ! i ! j"
    using i(1) len_cls by (simp add: cls_max_def cls_ids_def j_def)
  have ov: "obj ! i = (if logits_seen o2 then sigmoid (elem o2 i 4) else elem o2 i 4)"
    using i(1) by (simp add: obj_def col_obj_def n_def)
  have cv: "cls ! i ! j = (if logits_seen o2 then sigmoid (elem o2 i (5 + j)) else elem o2 i (5 + j))"
    using i(1) jk by (simp add: cls_def cols_cls_def n_def k_def)
  have "c = (if logits_seen o2
                then sigmoid (elem o2 i 4) * sigmoid (elem o2 i (5 + j))
                else elem o2 i 4 * elem o2 i (5 + j))"
    using i(2) mx ov cv by simp
  then show ?thesis using i(1) jk cge unfolding o2_def n_def k_def by blast
qed


lemma product_unit: "0 \<le> a \<Longrightarrow> a \<le> 1 \<Longrightarrow> 0 \<le> b \<Longrightarrow> b \<le> 1 \<Longrightarrow> 0 \<le> a * b \<and> a * b \<le> (1::real)"
  by (simp add: mult_le_one)

lemma product_band:
  fixes a b :: real
  assumes "- (1 / 2) \<le> a" "a \<le> 3 / 2" "- (1 / 2) \<le> b" "b \<le> 3 / 2"
  shows "- (3 / 4) \<le> a * b \<and> a * b \<le> 9 / 4"
proof
  have "\<bar>a\<bar> \<le> 3 / 2" "\<bar>b\<bar> \<le> 3 / 2" using assms by (simp_all add: abs_le_iff)
  then have "\<bar>a\<bar> * \<bar>b\<bar> \<le> (3 / 2) * (3 / 2)" by (intro mult_mono) simp_all
  then have "\<bar>a * b\<bar> \<le> 9 / 4" by (simp add: abs_mult)
  then show "a * b \<le> 9 / 4" by (simp add: abs_le_iff)
  show "- (3 / 4) \<le> a * b"
  proof (cases "0 \<le> a")
    case True
    show ?thesis
    proof (cases "0 \<le> b")
      case True
      with \<open>0 \<le> a\<close> have "0 \<le> a * b" by simp
      then show ?thesis by simp
    next
      case False
      then have "- b \<le> 1 / 2" "0 \<le> - b" using assms by simp_all
      then have "a * (- b) \<le> (3 / 2) * (1 / 2)" using True assms by (intro mult_mono) simp_all
      then show ?thesis by simp
    qed
  next
    case False
    show ?thesis
    proof (cases "0 \<le> b")
      case True
      from False have "- a \<le> 1 / 2" "0 \<le> - a" using assms by simp_all
      then have "(- a) * b \<le> (1 / 2) * (3 / 2)" using True assms by (intro mult_mono) simp_all
      then show ?thesis by simp
    next
      case b: False
      with False have "0 \<le> a * b" by (simp add: mult_nonpos_nonpos)
      then show ?thesis by simp
    qed
  qed
qed


lemma col_obj_mem: "i < shape0 o2 \<Longrightarrow> elem o2 i 4 \<in> set (col_obj o2)"
  by (simp add: col_obj_def)

lemma cols_cls_mem:
  "i < shape0 o2 \<Longrightarrow> j < shape1 o2 - 5 \<Longrightarrow> elem o2 i (5 + j) \<in> set (concat (cols_cls o2))"
  by (auto simp: cols_cls_def intro!: bexI[of _ i] image_eqI[of _ _ j])

text \<open>
  Claim C2, as amended. Every confidence that the decoder returns is at least the
  threshold. It lies in \<open>[0, 1]\<close> when sigmoid was applied (some objectness or class value
  lies outside \<open>[-0.5, 1.5]\<close>), and when all raw objectness and class values lie in
  \<open>[0, 1]\<close>. In general it lies in \<open>[-0.75, 2.25]\<close>.
\<close>

theorem decoder_confidence_range:
  assumes "drop_batch t = Inr o1"
    and "decode_yolo_output (t # rest) thr w h imgsz = Inr (boxes, ids, confs)"
    and "c \<in> set confs"
  shows "thr \<le> c \<and>
         (logits_seen (orient o1) \<longrightarrow> 0 \<le> c \<and> c \<le> 1) \<and>
         ((\<forall>v \<in> set (col_obj (orient o1)) \<union> set (concat (cols_cls (orient o1))).
              0 \<le> v \<and> v \<le> 1) \<longrightarrow> 0 \<le> c \<and> c \<le> 1) \<and>
         - (3 / 4) \<le> c \<and> c \<le> 9 / 4"
proof -
  define o2 where "o2 = orient o1"
  from decode_confs[OF assms] obtain i j where
    ij: "i < shape0 o2" "j < shape1 o2 - 5" "thr \<le> c"
      "c = (if logits_seen o2 then sigmoid (elem o2 i 4) * sigmoid (elem o2 i (5 + j))
            else elem o2 i 4 * elem o2 i (5 + j))"
    unfolding o2_def by blast
  have ma: "elem o2 i 4 \<in> set (col_obj o2)" using ij(1) by (rule col_obj_mem)
  have mb: "elem o2 i (5 + j) \<in> set (concat (cols_cls o2))" using ij(1,2) by (rule cols_cls_mem)
  have sg: "0 \<le> sigmoid x * sigmoid y \<and> sigmoid x * sigmoid y \<le> 1" for x y
    using sigmoid_bounds[of x] sigmoid_bounds[of y] by (intro product_unit) simp_all
  have l: "logits_seen o2 \<longrightarrow> 0 \<le> c \<and> c \<le> 1"
    using ij(4) sg by simp
  have p: "(\<forall>v \<in> set (col_obj o2) \<union> set (concat (cols_cls o2)). 0 \<le> v \<and> v \<le> 1)
             \<longrightarrow> 0 \<le> c \<and> c \<le> 1"
  proof
    assume u: "\<forall>v \<in> set (col_obj o2) \<union> set (concat (cols_cls o2)). 0 \<le> v \<and> v \<le> 1"
    show "0 \<le> c \<and> c \<le> 1"
    proof (cases "logits_seen o2")
      case True
      then show ?thesis using l by simp
    next
      case False
      have "0 \<le> elem o2 i 4 * elem o2 i (5 + j) \<and> elem o2 i 4 * elem o2 i (5 + j) \<le> 1"
        using u ma mb by (intro product_unit) blast+
      then show ?thesis using ij(4) False by simp
    qed
  qed
  have b: "- (3 / 4) \<le> c \<and> c \<le> 9 / 4"
  proof (cases "logits_seen o2")
    case True
    then show ?thesis using l by simp
  next
    case False
    then have band: "\<forall>v \<in> set (col_obj o2) \<union> set (concat (cols_cls o2)).
                       - (1 / 2) \<le> v \<and> v \<le> 3 / 2"
      unfolding logits_seen_def by (auto simp: not_less)
    have "- (3 / 4) \<le> elem o2 i 4 * elem o2 i (5 + j) \<and> elem o2 i 4 * elem o2 i (5 + j) \<le> 9 / 4"
      using band ma mb by (intro product_band) blast+
    then show ?thesis using ij(4) False by simp
  qed
  show ?thesis using ij(3) l p b unfolding o2_def by blast
qed

lemma decode_ex_probs:
  "decode_yolo_output [Tensor2 ex_probs] (3 / 10) 640 480 640
     = Inr ([(8, 0, 12, 0)], [0], [72 / 100])"
  by (simp add: decode_yolo_output_def drop_batch_def ex_probs_def np_array_def
      orient_def ensure_probs_def cols_xywh_def col_obj_def cols_cls_def argmax_def upt_6
      masked_def unletterbox_def clip_def Let_def)

lemma sigmoid_product_nonneg: "0 \<le> sigmoid x * sigmoid y"
  using sigmoid_bounds(1)[of x] sigmoid_bounds(1)[of y] by simp

lemma logits_seen_ex: "logits_seen (orient ex_logits)"
  by (simp add: logits_seen_def orient_def ex_logits_def np_array_def col_obj_def upt_6)

lemma decode_ex_logits:
  "decode_yolo_output [Tensor2 ex_logits] 0 640 640 640
     = Inr (replicate 6 (288, 288, 352, 352), replicate 6 0, replicate 6 (sigmoid 3 * sigmoid 2))"
  by (simp add: decode_yolo_output_def drop_batch_def ex_logits_def np_array_def
      orient_def ensure_probs_def cols_xywh_def col_obj_def cols_cls_def argmax_def upt_6
      masked_def unletterbox_def clip_def Let_def sigmoid_product_nonneg numeral_eq_Suc)

theorem decoder_confidence_range_witness:
  "drop_batch (Tensor2 ex_probs) = Inr ex_probs \<and>
   decode_yolo_output [Tensor2 ex_probs] (3 / 10) 640 480 640
     = Inr ([(8, 0, 12, 0)], [0], [72 / 100]) \<and>
   (3 / 10 :: real) \<le> 72 / 100 \<and> (0 :: real) \<le> 72 / 100 \<and> (72 / 100 :: real) \<le> 1 \<and>
   logits_seen (orient ex_logits) \<and>
   decode_yolo_output [Tensor2 ex_logits] 0 640 640 640
     = Inr (replicate 6 (288, 288, 352, 352), replicate 6 0,
            replicate 6 (sigmoid 3 * sigmoid 2)) \<and>
   0 \<le> sigmoid 3 * sigmoid 2 \<and> sigmoid 3 * sigmoid 2 \<le> 1"
proof -
  have d: "drop_batch (Tensor2 ex_probs) = Inr ex_probs" by (simp add: drop_batch_def)
  have m: "(72 / 100 :: real) \<in> set [72 / 100]" by simp
  have u: "\<forall>v \<in> set (col_obj (orient ex_probs)) \<union> set (concat (cols_cls (orient ex_probs))).
             0 \<le> v \<and> v \<le> 1"
    by (simp add: orient_def ex_probs_def np_array_def col_obj_def cols_cls_def upt_6)
  have p: "(3 / 10 :: real) \<le> 72 / 100 \<and> (0 :: real) \<le> 72 / 100 \<and> (72 / 100 :: real) \<le> 1"
    using decoder_confidence_range[OF d decode_ex_probs m] u by blast
  have d': "drop_batch (Tensor2 ex_logits) = Inr ex_logits" by (simp add: drop_batch_def)
  have m': "sigmoid 3 * sigmoid 2 \<in> set (replicate 6 (sigmoid 3 * sigmoid 2))" by simp
  have l: "0 \<le> sigmoid 3 * sigmoid 2 \<and> sigmoid 3 * sigmoid 2 \<le> 1"
    using decoder_confidence_range[OF d' decode_ex_logits m'] logits_seen_ex by blast
  show ?thesis using d decode_ex_probs p logits_seen_ex decode_ex_logits l by blast
qed

text \<open>
  The claim C2 as it was stated fails: with an objectness and a class score of 1.2 no
  value is outside \<open>[-0.5, 1.5]\<close>, sigmoid is not applied, and the confidence is 1.44.
\<close>

theorem decoder_confidence_range_counterexample:
  "decode_yolo_output [Tensor2 ex_probs_over_one] (3 / 10) 640 480 640
     = Inr ([(8, 0, 12, 0)], [0], [144 / 100]) \<and>
   \<not> (144 / 100 :: real) \<le> 1"
  using decode_ex_probs_over_one by simp

section \<open>Properties of the SingleStageDetector\<close>









end
